theory Spec2Isabelle
  imports Complex_Main "HOL-Library.AList" "HOL-Library.Multiset"
begin

section \<open>Values of the query language\<close>

text \<open>
  The parser (\<^verbatim>\<open>QueryParser._parse_value\<close>) produces Python values of five kinds:
  \<^verbatim>\<open>None\<close>, \<^verbatim>\<open>bool\<close>, \<^verbatim>\<open>int\<close>, \<^verbatim>\<open>float\<close> and \<^verbatim>\<open>str\<close>.
  A float is represented by what it denotes: not-a-number, an infinity with its sign
  (\<open>True\<close> for the negative one), or a finite number given exactly as a rational.
\<close>

datatype pyfloat = FNan | FInf bool | FFin rat

datatype val = VNone | VBool bool | VInt int | VFloat pyfloat | VStr string

text \<open>
  Python compares and hashes \<^verbatim>\<open>True\<close>, \<^verbatim>\<open>1\<close> and \<^verbatim>\<open>1.0\<close> as the same
  dictionary key; \<open>dkey\<close> maps a value to the class it falls into as a key of a
  \<^verbatim>\<open>dict\<close>. \<open>py_eq\<close> is the operator \<^verbatim>\<open>==\<close> on these values: equality of the
  classes, except that not-a-number is equal to nothing. The operator \<^verbatim>\<open>!=\<close> is its
  negation.
\<close>

datatype dict_key = KNone | KNum rat | KInf bool | KNan | KStr string

fun dkey :: "val \<Rightarrow> dict_key" where
  "dkey VNone = KNone"
| "dkey (VBool b) = KNum (if b then 1 else 0)"
| "dkey (VInt i) = KNum (of_int i)"
| "dkey (VFloat FNan) = KNan"
| "dkey (VFloat (FInf s)) = KInf s"
| "dkey (VFloat (FFin r)) = KNum r"
| "dkey (VStr s) = KStr s"

definition py_eq :: "val \<Rightarrow> val \<Rightarrow> bool" where
  "py_eq a b \<longleftrightarrow> dkey a = dkey b \<and> dkey a \<noteq> KNan"

section \<open>Columns (\<^verbatim>\<open>types.py\<close>)\<close>

datatype DataType = DT_INT | DT_TEXT | DT_BOOL

text \<open>\<^verbatim>\<open>DataType(s)\<close> raises \<^verbatim>\<open>ValueError\<close> on any other string.\<close>

definition DataType_of :: "string \<Rightarrow> DataType option" where
  "DataType_of s =
     (if s = ''INT'' then Some DT_INT
      else if s = ''TEXT'' then Some DT_TEXT
      else if s = ''BOOL'' then Some DT_BOOL
      else None)"

fun DataType_value :: "DataType \<Rightarrow> string" where
  "DataType_value DT_INT = ''INT''"
| "DataType_value DT_TEXT = ''TEXT''"
| "DataType_value DT_BOOL = ''BOOL''"

record Column =
  name :: string
  dtype :: DataType
  is_primary :: bool
  is_unique :: bool

text \<open>\<^verbatim>\<open>isinstance(v, int)\<close> holds of a \<^verbatim>\<open>bool\<close> too: \<^verbatim>\<open>bool\<close> is a subclass of \<^verbatim>\<open>int\<close>.\<close>

fun isinstance_int :: "val \<Rightarrow> bool" where
  "isinstance_int (VInt i) = True"
| "isinstance_int (VBool b) = True"
| "isinstance_int v = False"

fun isinstance_str :: "val \<Rightarrow> bool" where
  "isinstance_str (VStr s) = True"
| "isinstance_str v = False"

fun isinstance_bool :: "val \<Rightarrow> bool" where
  "isinstance_bool (VBool b) = True"
| "isinstance_bool v = False"

definition validate_value :: "Column \<Rightarrow> val \<Rightarrow> bool" where
  "validate_value col v =
     (if v = VNone then True
      else (case dtype col of
              DT_INT \<Rightarrow> isinstance_int v
            | DT_TEXT \<Rightarrow> isinstance_str v
            | DT_BOOL \<Rightarrow> isinstance_bool v))"

section \<open>The hash index (\<^verbatim>\<open>types.py\<close>, class \<^verbatim>\<open>Index\<close>)\<close>

text \<open>
  \<^verbatim>\<open>self._index\<close> is a dictionary from values to sets of row-ids; it is never iterated,
  so it is a map, keyed by the class of the value. Every method that mutates the index
  returns the new index.
\<close>

record Index =
  column_name :: string
  index_is_unique :: bool
  index_map :: "dict_key \<rightharpoonup> nat set"

definition new_Index :: "string \<Rightarrow> bool \<Rightarrow> Index" where
  "new_Index c u = \<lparr>column_name = c, index_is_unique = u, index_map = Map.empty\<rparr>"

definition Index_insert :: "Index \<Rightarrow> val \<Rightarrow> nat \<Rightarrow> bool \<times> Index" where
  "Index_insert ix v row_id =
     (if v = VNone then (True, ix)
      else if index_is_unique ix \<and>
              (case index_map ix (dkey v) of None \<Rightarrow> False | Some s \<Rightarrow> s \<noteq> {})
           then (False, ix)
      else (True, ix\<lparr>index_map := (index_map ix)(dkey v \<mapsto>
                 insert row_id (case index_map ix (dkey v) of None \<Rightarrow> {} | Some s \<Rightarrow> s))\<rparr>))"

definition Index_delete :: "Index \<Rightarrow> val \<Rightarrow> nat \<Rightarrow> Index" where
  "Index_delete ix v row_id =
     (case index_map ix (dkey v) of
        None \<Rightarrow> ix
      | Some s \<Rightarrow>
          (if s - {row_id} = {} then ix\<lparr>index_map := (index_map ix)(dkey v := None)\<rparr>
           else ix\<lparr>index_map := (index_map ix)(dkey v \<mapsto> s - {row_id})\<rparr>))"

definition Index_update :: "Index \<Rightarrow> val \<Rightarrow> val \<Rightarrow> nat \<Rightarrow> bool \<times> Index" where
  "Index_update ix old_value new_value row_id =
     Index_insert (Index_delete ix old_value row_id) new_value row_id"

definition Index_search :: "Index \<Rightarrow> val \<Rightarrow> nat set" where
  "Index_search ix v = (case index_map ix (dkey v) of None \<Rightarrow> {} | Some s \<Rightarrow> s)"

definition Index_has_value :: "Index \<Rightarrow> val \<Rightarrow> bool" where
  "Index_has_value ix v \<longleftrightarrow> index_map ix (dkey v) \<noteq> None"

section \<open>Tables, statements and the executor state (\<^verbatim>\<open>executor.py\<close>)\<close>

text \<open>
  A row is a dictionary from column names to values, the row store a dictionary from
  row-ids to rows, both in insertion order: association lists, written with
  \<open>AList.update\<close> (an existing key keeps its place, a new key goes last) and
  \<open>AList.delete\<close>. The row store's keys are the decimal strings of the row-ids
  (\<^verbatim>\<open>str(row_id)\<close>, read back with \<^verbatim>\<open>int\<close>); the model keys it by the number.
  \<^verbatim>\<open>table['data']\<close> is the dictionary \<^verbatim>\<open>{'rows': ...}\<close>, or the empty dictionary when a
  table was loaded without its data file: \<open>None\<close> here.
\<close>

type_synonym row = "(string \<times> val) list"

record Table =
  schema :: "Column list"
  data :: "(nat \<times> row) list option"
  indexes :: "(string \<times> Index) list"
  next_row_id :: nat

text \<open>A column definition as the parser returns it and as the schema file stores it.\<close>

record col_def =
  cd_name :: string
  cd_type :: string
  cd_constraints :: "string list"

record condition =
  cond_column :: string
  cond_operator :: string
  cond_value :: val

record join_info =
  join_table :: string
  left_column :: string
  right_column :: string

datatype query =
    CREATE_TABLE string "col_def list"
  | INSERT string "string list option" "val list"
  | SELECT string "string list" "condition list option" "join_info option"
  | UPDATE string "(string \<times> val) list" "condition list option"
  | DELETE string "condition list option"

datatype error =
    SyntaxError string
  | TableExists string
  | NoSuchTable string
  | BadDataType string
  | CountMismatch nat nat
  | NoSuchColumn string
  | InvalidType string
  | NullPrimaryKey string
  | DuplicateValue string val
  | UniqueViolation string
  | KeyError string
  | IndexError

datatype result =
    Created string
  | Inserted nat
  | Selected "string list" "row list"
  | Updated nat
  | Deleted nat

text \<open>
  The storage directory (\<^verbatim>\<open>storage.py\<close>): one schema file and one data file per table.
  \<^verbatim>\<open>list_tables\<close> returns the names of the schema files in directory order.
\<close>

record Storage =
  schema_files :: "(string \<times> col_def list) list"
  data_files :: "string \<rightharpoonup> (nat \<times> row) list option"

definition save_table_schema :: "Storage \<Rightarrow> string \<Rightarrow> col_def list \<Rightarrow> Storage" where
  "save_table_schema st tn cds = st\<lparr>schema_files := AList.update tn cds (schema_files st)\<rparr>"

definition save_table_data :: "Storage \<Rightarrow> string \<Rightarrow> (nat \<times> row) list option \<Rightarrow> Storage" where
  "save_table_data st tn d = st\<lparr>data_files := (data_files st)(tn \<mapsto> d)\<rparr>"

definition list_tables :: "Storage \<Rightarrow> string list" where
  "list_tables st = map fst (schema_files st)"

record Executor =
  storage :: Storage
  tables :: "string \<rightharpoonup> Table"

text \<open>\<^verbatim>\<open>row.get(k)\<close>: the value, or \<^verbatim>\<open>None\<close> for a missing key.\<close>

definition row_get :: "row \<Rightarrow> string \<Rightarrow> val" where
  "row_get r k = (case map_of r k of None \<Rightarrow> VNone | Some v \<Rightarrow> v)"


subsection \<open>Building columns and indexes\<close>

text \<open>
  The \<^verbatim>\<open>Column(...)\<close> call of \<^verbatim>\<open>_execute_create_table\<close>. The constraints are a Python
  list of strings, and \<^verbatim>\<open>'PRIMARY KEY' in constraints\<close> is membership of that one string
  in the list.
\<close>

definition create_column :: "col_def \<Rightarrow> error + Column" where
  "create_column cd =
     (case DataType_of (cd_type cd) of
        None \<Rightarrow> Inl (BadDataType (cd_type cd))
      | Some t \<Rightarrow> Inr \<lparr>name = cd_name cd, dtype = t,
          is_primary = (''PRIMARY KEY'' \<in> set (cd_constraints cd)),
          is_unique = (''UNIQUE'' \<in> set (cd_constraints cd)
                       \<or> ''PRIMARY KEY'' \<in> set (cd_constraints cd))\<rparr>)"

fun create_columns :: "col_def list \<Rightarrow> error + Column list" where
  "create_columns [] = Inr []"
| "create_columns (cd # cds) =
     (case create_column cd of
        Inl e \<Rightarrow> Inl e
      | Inr col \<Rightarrow> (case create_columns cds of Inl e \<Rightarrow> Inl e | Inr cols \<Rightarrow> Inr (col # cols)))"

text \<open>The schema descriptor that \<^verbatim>\<open>_execute_create_table\<close> hands to the storage.\<close>

definition schema_entry :: "col_def \<Rightarrow> Column \<Rightarrow> col_def" where
  "schema_entry cd col =
     \<lparr>cd_name = name col, cd_type = DataType_value (dtype col), cd_constraints = cd_constraints cd\<rparr>"

text \<open>One index per primary or unique column, entered under the column's name.\<close>

fun create_indexes :: "Column list \<Rightarrow> (string \<times> Index) list \<Rightarrow> (string \<times> Index) list" where
  "create_indexes [] ixs = ixs"
| "create_indexes (col # cols) ixs =
     (if is_primary col \<or> is_unique col
      then create_indexes cols
             (AList.update (name col) (new_Index (name col) (is_primary col \<or> is_unique col)) ixs)
      else create_indexes cols ixs)"

subsection \<open>The shared constraint check\<close>

text \<open>
  \<^verbatim>\<open>_check_constraints\<close> walks the columns in schema order and raises at the first
  violation; \<open>None\<close> is the normal return. \<^verbatim>\<open>indexes[col.name]\<close> raises \<^verbatim>\<open>KeyError\<close> when
  the column has no index.
\<close>

fun check_constraints ::
  "(string \<times> Index) list \<Rightarrow> row \<Rightarrow> nat option \<Rightarrow> Column list \<Rightarrow> error option" where
  "check_constraints ixs r exclude_row_id [] = None"
| "check_constraints ixs r exclude_row_id (col # cols) =
     (let v = row_get r (name col) in
      if is_primary col \<and> v = VNone then Some (NullPrimaryKey (name col))
      else if (is_primary col \<or> is_unique col) \<and> v \<noteq> VNone then
        (case map_of ixs (name col) of
           None \<Rightarrow> Some (KeyError (name col))
         | Some ix \<Rightarrow>
             (if Index_has_value ix v \<and>
                 Index_search ix v - (case exclude_row_id of None \<Rightarrow> {} | Some i \<Rightarrow> {i}) \<noteq> {}
              then Some (DuplicateValue (name col) v)
              else check_constraints ixs r exclude_row_id cols))
      else check_constraints ixs r exclude_row_id cols)"

subsection \<open>WHERE\<close>

text \<open>The test one condition makes on a row in the full scan; an operator that is neither
  \<^verbatim>\<open>=\<close> nor \<^verbatim>\<open>!=\<close> tests nothing.\<close>

definition cond_holds :: "row \<Rightarrow> condition \<Rightarrow> bool" where
  "cond_holds r c =
     (if cond_operator c = ''='' then py_eq (row_get r (cond_column c)) (cond_value c)
      else if cond_operator c = ''!='' then \<not> py_eq (row_get r (cond_column c)) (cond_value c)
      else True)"

definition full_scan :: "(nat \<times> row) list \<Rightarrow> condition list \<Rightarrow> (nat \<times> row) list" where
  "full_scan rws conds = filter (\<lambda>(i, r). list_all (cond_holds r) conds) rws"

text \<open>The first condition, in list order, that is an equality on an indexed column.\<close>

fun index_condition :: "(string \<times> Index) list \<Rightarrow> condition list \<Rightarrow> (Index \<times> val) option" where
  "index_condition ixs [] = None"
| "index_condition ixs (c # cs) =
     (if cond_operator c = ''='' then
        (case map_of ixs (cond_column c) of
           Some ix \<Rightarrow> Some (ix, cond_value c)
         | None \<Rightarrow> index_condition ixs cs)
      else index_condition ixs cs)"

text \<open>
  The rows whose row-id is in the set the index returns. Python iterates the set in no
  specified order; the model takes the matching row-ids in the order of the row store.
\<close>

definition index_lookup :: "(nat \<times> row) list \<Rightarrow> Index \<Rightarrow> val \<Rightarrow> (nat \<times> row) list" where
  "index_lookup rws ix v = filter (\<lambda>(i, r). i \<in> Index_search ix v) rws"

definition apply_where_clause ::
  "(string \<times> Index) list \<Rightarrow> (nat \<times> row) list \<Rightarrow> condition list option \<Rightarrow> (nat \<times> row) list" where
  "apply_where_clause ixs rws conditions =
     (case conditions of
        None \<Rightarrow> rws
      | Some [] \<Rightarrow> rws
      | Some conds \<Rightarrow>
          (case index_condition ixs conds of
             Some (ix, v) \<Rightarrow> index_lookup rws ix v
           | None \<Rightarrow> full_scan rws conds))"


subsection \<open>INSERT\<close>

text \<open>
  The loop that INSERT runs over \<^verbatim>\<open>zip(col_names, values)\<close> and UPDATE over the SET
  assignments: find the column of that name (the first one), validate the value against
  its type, store it in the row under construction.
\<close>

fun assign_validated :: "Column list \<Rightarrow> (string \<times> val) list \<Rightarrow> row \<Rightarrow> error + row" where
  "assign_validated cols [] r = Inr r"
| "assign_validated cols ((c, v) # rest) r =
     (case find (\<lambda>col. name col = c) cols of
        None \<Rightarrow> Inl (NoSuchColumn c)
      | Some col_def \<Rightarrow>
          (if \<not> validate_value col_def v then Inl (InvalidType c)
           else assign_validated cols rest (AList.update c v r)))"

fun fill_missing :: "Column list \<Rightarrow> row \<Rightarrow> row" where
  "fill_missing [] r = r"
| "fill_missing (col # cols) r =
     fill_missing cols (if map_of r (name col) = None then AList.update (name col) VNone r else r)"

text \<open>
  The index loop of INSERT stops at the first index that refuses the value; the indexes
  visited before it keep the new entry. The second component names the refusing column.
\<close>

fun insert_indexes ::
  "row \<Rightarrow> nat \<Rightarrow> (string \<times> Index) list \<Rightarrow> (string \<times> Index) list \<times> string option" where
  "insert_indexes r row_id [] = ([], None)"
| "insert_indexes r row_id ((c, ix) # rest) =
     (case Index_insert ix (row_get r c) row_id of
        (False, ix') \<Rightarrow> ((c, ix') # rest, Some c)
      | (True, ix') \<Rightarrow>
          (case insert_indexes r row_id rest of (rest', failed) \<Rightarrow> ((c, ix') # rest', failed)))"

definition insert_row :: "Table \<Rightarrow> string list option \<Rightarrow> val list \<Rightarrow> (error + nat) \<times> Table" where
  "insert_row t columns vals =
     (case data t of
        None \<Rightarrow> (Inl (KeyError ''rows''), t)
      | Some rws \<Rightarrow>
          (let col_names = (case columns of
                              None \<Rightarrow> map name (schema t)
                            | Some [] \<Rightarrow> map name (schema t)
                            | Some cs \<Rightarrow> cs)
           in if length col_names \<noteq> length vals
              then (Inl (CountMismatch (length col_names) (length vals)), t)
              else (case assign_validated (schema t) (zip col_names vals) [] of
                      Inl e \<Rightarrow> (Inl e, t)
                    | Inr rd \<Rightarrow>
                        (let row_data = fill_missing (schema t) rd
                         in case check_constraints (indexes t) row_data None (schema t) of
                              Some e \<Rightarrow> (Inl e, t)
                            | None \<Rightarrow>
                                (let row_id = next_row_id t;
                                     rws' = AList.update row_id row_data rws
                                 in case insert_indexes row_data row_id (indexes t) of
                                      (ixs', Some c) \<Rightarrow>
                                        (Inl (UniqueViolation c),
                                         t\<lparr>data := Some (AList.delete row_id rws'),
                                           indexes := ixs',
                                           next_row_id := next_row_id t + 1 - 1\<rparr>)
                                    | (ixs', None) \<Rightarrow>
                                        (Inr row_id,
                                         t\<lparr>data := Some rws',
                                           indexes := ixs',
                                           next_row_id := next_row_id t + 1\<rparr>))))))"

definition execute_insert ::
  "Executor \<Rightarrow> string \<Rightarrow> string list option \<Rightarrow> val list \<Rightarrow> (error + result) \<times> Executor" where
  "execute_insert ex tn columns vals =
     (case tables ex tn of
        None \<Rightarrow> (Inl (NoSuchTable tn), ex)
      | Some t \<Rightarrow>
          (case insert_row t columns vals of
             (Inl e, t') \<Rightarrow> (Inl e, ex\<lparr>tables := (tables ex)(tn \<mapsto> t')\<rparr>)
           | (Inr row_id, t') \<Rightarrow>
               (Inr (Inserted row_id),
                ex\<lparr>tables := (tables ex)(tn \<mapsto> t'),
                   storage := save_table_data (storage ex) tn (data t')\<rparr>)))"

subsection \<open>UPDATE\<close>

text \<open>
  The index loop of UPDATE: an index is touched only where the old and the new value
  differ (\<^verbatim>\<open>!=\<close>). When \<^verbatim>\<open>Index.update\<close> returns false its delete has already happened.
\<close>

fun update_indexes ::
  "row \<Rightarrow> row \<Rightarrow> nat \<Rightarrow> (string \<times> Index) list \<Rightarrow> (string \<times> Index) list \<times> string option" where
  "update_indexes r r' row_id [] = ([], None)"
| "update_indexes r r' row_id ((c, ix) # rest) =
     (if \<not> py_eq (row_get r c) (row_get r' c) then
        (case Index_update ix (row_get r c) (row_get r' c) row_id of
           (False, ix') \<Rightarrow> ((c, ix') # rest, Some c)
         | (True, ix') \<Rightarrow>
             (case update_indexes r r' row_id rest of
                (rest', failed) \<Rightarrow> ((c, ix') # rest', failed)))
      else (case update_indexes r r' row_id rest of
              (rest', failed) \<Rightarrow> ((c, ix) # rest', failed)))"

text \<open>One iteration of the loop over the target rows; \<open>None\<close> means it committed.\<close>

definition update_one :: "(string \<times> val) list \<Rightarrow> nat \<Rightarrow> Table \<Rightarrow> error option \<times> Table" where
  "update_one assignments row_id t =
     (case data t of
        None \<Rightarrow> (Some (KeyError ''rows''), t)
      | Some rws \<Rightarrow>
          (case map_of rws row_id of
             None \<Rightarrow> (Some (KeyError ''row''), t)
           | Some r \<Rightarrow>
               (case assign_validated (schema t) assignments r of
                  Inl e \<Rightarrow> (Some e, t)
                | Inr updated_row \<Rightarrow>
                    (case check_constraints (indexes t) updated_row (Some row_id) (schema t) of
                       Some e \<Rightarrow> (Some e, t)
                     | None \<Rightarrow>
                         (case update_indexes r updated_row row_id (indexes t) of
                            (ixs', Some c) \<Rightarrow> (Some (UniqueViolation c), t\<lparr>indexes := ixs'\<rparr>)
                          | (ixs', None) \<Rightarrow>
                              (None, t\<lparr>data := Some (AList.update row_id updated_row rws),
                                       indexes := ixs'\<rparr>))))))"

fun update_rows ::
  "(string \<times> val) list \<Rightarrow> nat list \<Rightarrow> Table \<Rightarrow> nat \<Rightarrow> (error + nat) \<times> Table" where
  "update_rows assignments [] t updated_count = (Inr updated_count, t)"
| "update_rows assignments (row_id # ids) t updated_count =
     (case update_one assignments row_id t of
        (Some e, t') \<Rightarrow> (Inl e, t')
      | (None, t') \<Rightarrow> update_rows assignments ids t' (updated_count + 1))"

definition execute_update ::
  "Executor \<Rightarrow> string \<Rightarrow> (string \<times> val) list \<Rightarrow> condition list option
     \<Rightarrow> (error + result) \<times> Executor" where
  "execute_update ex tn assignments conditions =
     (case tables ex tn of
        None \<Rightarrow> (Inl (NoSuchTable tn), ex)
      | Some t \<Rightarrow>
          (case data t of
             None \<Rightarrow> (Inl (KeyError ''rows''), ex)
           | Some rws \<Rightarrow>
               (let filtered_rows = apply_where_clause (indexes t) rws conditions
                in case update_rows assignments (map fst filtered_rows) t 0 of
                     (Inl e, t') \<Rightarrow> (Inl e, ex\<lparr>tables := (tables ex)(tn \<mapsto> t')\<rparr>)
                   | (Inr n, t') \<Rightarrow>
                       (Inr (Updated n),
                        ex\<lparr>tables := (tables ex)(tn \<mapsto> t'),
                           storage := (if n > 0 then save_table_data (storage ex) tn (data t')
                                       else storage ex)\<rparr>))))"

subsection \<open>DELETE\<close>

definition delete_one :: "nat \<Rightarrow> Table \<Rightarrow> error option \<times> Table" where
  "delete_one row_id t =
     (case data t of
        None \<Rightarrow> (Some (KeyError ''rows''), t)
      | Some rws \<Rightarrow>
          (case map_of rws row_id of
             None \<Rightarrow> (Some (KeyError ''row''), t)
           | Some r \<Rightarrow>
               (None, t\<lparr>data := Some (AList.delete row_id rws),
                        indexes := map (\<lambda>(c, ix). (c, Index_delete ix (row_get r c) row_id))
                                       (indexes t)\<rparr>)))"

fun delete_rows :: "nat list \<Rightarrow> Table \<Rightarrow> nat \<Rightarrow> (error + nat) \<times> Table" where
  "delete_rows [] t deleted_count = (Inr deleted_count, t)"
| "delete_rows (row_id # ids) t deleted_count =
     (case delete_one row_id t of
        (Some e, t') \<Rightarrow> (Inl e, t')
      | (None, t') \<Rightarrow> delete_rows ids t' (deleted_count + 1))"

definition execute_delete ::
  "Executor \<Rightarrow> string \<Rightarrow> condition list option \<Rightarrow> (error + result) \<times> Executor" where
  "execute_delete ex tn conditions =
     (case tables ex tn of
        None \<Rightarrow> (Inl (NoSuchTable tn), ex)
      | Some t \<Rightarrow>
          (case data t of
             None \<Rightarrow> (Inl (KeyError ''rows''), ex)
           | Some rws \<Rightarrow>
               (let filtered_rows = apply_where_clause (indexes t) rws conditions
                in case delete_rows (map fst filtered_rows) t 0 of
                     (Inl e, t') \<Rightarrow> (Inl e, ex\<lparr>tables := (tables ex)(tn \<mapsto> t')\<rparr>)
                   | (Inr n, t') \<Rightarrow>
                       (Inr (Deleted n),
                        ex\<lparr>tables := (tables ex)(tn \<mapsto> t'),
                           storage := (if n > 0 then save_table_data (storage ex) tn (data t')
                                       else storage ex)\<rparr>))))"


subsection \<open>SELECT and JOIN\<close>

text \<open>
  A merged row: every left entry under \<^verbatim>\<open>left_table.column\<close>, then every right entry
  stored under \<^verbatim>\<open>right_table.column\<close> (\<^verbatim>\<open>dict.update\<close>, so a right entry replaces a left
  one that has the same key).
\<close>

definition prefixed :: "string \<Rightarrow> row \<Rightarrow> row \<Rightarrow> row" where
  "prefixed tn r acc = fold (\<lambda>(k, v) m. AList.update (tn @ ''.'' @ k) v m) r acc"

definition merge_rows :: "string \<Rightarrow> row \<Rightarrow> string \<Rightarrow> row \<Rightarrow> row" where
  "merge_rows left_table_name left_row right_table_name right_row =
     prefixed right_table_name right_row (prefixed left_table_name left_row [])"

text \<open>
  The two branches of \<^verbatim>\<open>_execute_join\<close>. The index branch reads the matching row-ids from
  the right table's index and skips a right row that is missing or is the empty
  dictionary (\<^verbatim>\<open>if right_row:\<close>); the nested loop compares the values with \<^verbatim>\<open>==\<close>.
  Both skip a left row whose join value is \<^verbatim>\<open>None\<close>.
\<close>

definition join_index ::
  "string \<Rightarrow> (nat \<times> row) list \<Rightarrow> string \<Rightarrow> (nat \<times> row) list \<Rightarrow> Index \<Rightarrow> string \<Rightarrow> row list" where
  "join_index left_table_name left_rows right_table_name right_rows ix left_col =
     concat (map (\<lambda>(li, left_row).
        (let left_value = row_get left_row left_col
         in if left_value = VNone then []
            else map (\<lambda>(ri, right_row). merge_rows left_table_name left_row right_table_name right_row)
                   (filter (\<lambda>(ri, right_row). ri \<in> Index_search ix left_value \<and> right_row \<noteq> [])
                      right_rows)))
        left_rows)"

definition join_nested ::
  "string \<Rightarrow> (nat \<times> row) list \<Rightarrow> string \<Rightarrow> (nat \<times> row) list \<Rightarrow> string \<Rightarrow> string \<Rightarrow> row list" where
  "join_nested left_table_name left_rows right_table_name right_rows left_col right_col =
     concat (map (\<lambda>(li, left_row).
        (let left_value = row_get left_row left_col
         in if left_value = VNone then []
            else map (\<lambda>(ri, right_row). merge_rows left_table_name left_row right_table_name right_row)
                   (filter (\<lambda>(ri, right_row). py_eq (row_get right_row right_col) left_value)
                      right_rows)))
        left_rows)"

definition execute_join ::
  "Executor \<Rightarrow> string \<Rightarrow> (nat \<times> row) list \<Rightarrow> join_info \<Rightarrow> error + row list" where
  "execute_join ex left_table_name left_rows j =
     (case tables ex (join_table j) of
        None \<Rightarrow> Inl (NoSuchTable (join_table j))
      | Some right_table \<Rightarrow>
          (case data right_table of
             None \<Rightarrow> Inl (KeyError ''rows'')
           | Some right_rows \<Rightarrow>
               (case map_of (indexes right_table) (right_column j) of
                  Some ix \<Rightarrow>
                    Inr (join_index left_table_name left_rows (join_table j) right_rows ix
                           (left_column j))
                | None \<Rightarrow>
                    Inr (join_nested left_table_name left_rows (join_table j) right_rows
                           (left_column j) (right_column j)))))"

text \<open>The projection of one row on the selected columns; a missing column raises.\<close>

fun project_row :: "string list \<Rightarrow> row \<Rightarrow> row \<Rightarrow> error + row" where
  "project_row [] r acc = Inr acc"
| "project_row (c # cs) r acc =
     (case map_of r c of
        None \<Rightarrow> Inl (NoSuchColumn c)
      | Some v \<Rightarrow> project_row cs r (AList.update c v acc))"

fun project_rows :: "string list \<Rightarrow> (nat \<times> row) list \<Rightarrow> error + row list" where
  "project_rows cs [] = Inr []"
| "project_rows cs ((i, r) # rest) =
     (case project_row cs r [] of
        Inl e \<Rightarrow> Inl e
      | Inr pr \<Rightarrow> (case project_rows cs rest of Inl e \<Rightarrow> Inl e | Inr prs \<Rightarrow> Inr (pr # prs)))"

definition execute_select ::
  "Executor \<Rightarrow> string \<Rightarrow> string list \<Rightarrow> condition list option \<Rightarrow> join_info option
     \<Rightarrow> error + result" where
  "execute_select ex tn columns conditions join =
     (case tables ex tn of
        None \<Rightarrow> Inl (NoSuchTable tn)
      | Some t \<Rightarrow>
          (case data t of
             None \<Rightarrow> Inl (KeyError ''rows'')
           | Some rws \<Rightarrow>
               (let selected_columns = (if columns = [''*''] then map name (schema t) else columns);
                    filtered_rows = apply_where_clause (indexes t) rws conditions
                in case join of
                     Some j \<Rightarrow>
                       (case execute_join ex tn filtered_rows j of
                          Inl e \<Rightarrow> Inl e
                        | Inr join_result \<Rightarrow> Inr (Selected selected_columns join_result))
                   | None \<Rightarrow>
                       (case project_rows selected_columns filtered_rows of
                          Inl e \<Rightarrow> Inl e
                        | Inr res \<Rightarrow> Inr (Selected selected_columns res)))))"

subsection \<open>CREATE TABLE, dispatch, and loading at start\<close>

definition execute_create_table ::
  "Executor \<Rightarrow> string \<Rightarrow> col_def list \<Rightarrow> (error + result) \<times> Executor" where
  "execute_create_table ex tn cds =
     (if tables ex tn \<noteq> None then (Inl (TableExists tn), ex)
      else (case create_columns cds of
              Inl e \<Rightarrow> (Inl e, ex)
            | Inr columns \<Rightarrow>
                (let schema_data = map (\<lambda>(cd, col). schema_entry cd col) (zip cds columns);
                     t = \<lparr>schema = columns, data = Some [],
                          indexes = create_indexes columns [], next_row_id = 1\<rparr>
                 in (Inr (Created tn),
                     ex\<lparr>tables := (tables ex)(tn \<mapsto> t),
                        storage := save_table_data (save_table_schema (storage ex) tn schema_data)
                                     tn (data t)\<rparr>))))"

fun execute :: "Executor \<Rightarrow> query \<Rightarrow> (error + result) \<times> Executor" where
  "execute ex (CREATE_TABLE tn cds) = execute_create_table ex tn cds"
| "execute ex (INSERT tn columns vals) = execute_insert ex tn columns vals"
| "execute ex (SELECT tn columns conditions join) =
     (execute_select ex tn columns conditions join, ex)"
| "execute ex (UPDATE tn assignments conditions) = execute_update ex tn assignments conditions"
| "execute ex (DELETE tn conditions) = execute_delete ex tn conditions"

text \<open>
  \<^verbatim>\<open>_load_table\<close>. The \<^verbatim>\<open>Column(...)\<close> call is written out a second time there, over the
  entries of the schema file.
\<close>

definition load_column :: "col_def \<Rightarrow> error + Column" where
  "load_column col_data =
     (case DataType_of (cd_type col_data) of
        None \<Rightarrow> Inl (BadDataType (cd_type col_data))
      | Some t \<Rightarrow> Inr \<lparr>name = cd_name col_data, dtype = t,
          is_primary = (''PRIMARY KEY'' \<in> set (cd_constraints col_data)),
          is_unique = (''UNIQUE'' \<in> set (cd_constraints col_data)
                       \<or> ''PRIMARY KEY'' \<in> set (cd_constraints col_data))\<rparr>)"

fun load_columns ::
  "col_def list \<Rightarrow> Column list \<Rightarrow> (string \<times> Index) list
     \<Rightarrow> error + (Column list \<times> (string \<times> Index) list)" where
  "load_columns [] columns ixs = Inr (columns, ixs)"
| "load_columns (col_data # rest) columns ixs =
     (case load_column col_data of
        Inl e \<Rightarrow> Inl e
      | Inr col \<Rightarrow>
          load_columns rest (columns @ [col])
            (if is_primary col \<or> is_unique col
             then AList.update (name col) (new_Index (name col) (is_primary col \<or> is_unique col)) ixs
             else ixs))"

text \<open>Replaying one stored row into the indexes; the result of \<^verbatim>\<open>insert\<close> is ignored.\<close>

fun replay_row :: "row \<Rightarrow> nat \<Rightarrow> Column list \<Rightarrow> (string \<times> Index) list \<Rightarrow> (string \<times> Index) list" where
  "replay_row r row_id [] ixs = ixs"
| "replay_row r row_id (col # cols) ixs =
     (case map_of ixs (name col) of
        None \<Rightarrow> replay_row r row_id cols ixs
      | Some ix \<Rightarrow>
          replay_row r row_id cols
            (AList.update (name col) (snd (Index_insert ix (row_get r (name col)) row_id)) ixs))"

fun replay_rows ::
  "(nat \<times> row) list \<Rightarrow> Column list \<Rightarrow> nat \<Rightarrow> (string \<times> Index) list
     \<Rightarrow> nat \<times> (string \<times> Index) list" where
  "replay_rows [] columns next_id ixs = (next_id, ixs)"
| "replay_rows ((row_id, r) # rest) columns next_id ixs =
     replay_rows rest columns (max next_id (row_id + 1)) (replay_row r row_id columns ixs)"

text \<open>\<open>Inr None\<close>: the table has no schema (or an empty one) and is not registered.\<close>

definition load_table :: "Storage \<Rightarrow> string \<Rightarrow> error + Table option" where
  "load_table st tn =
     (case map_of (schema_files st) tn of
        None \<Rightarrow> Inr None
      | Some [] \<Rightarrow> Inr None
      | Some schema_data \<Rightarrow>
          (case load_columns schema_data [] [] of
             Inl e \<Rightarrow> Inl e
           | Inr (columns, ixs) \<Rightarrow>
               (let table_data = (case data_files st tn of None \<Rightarrow> None | Some d \<Rightarrow> d);
                    rws = (case table_data of None \<Rightarrow> [] | Some rs \<Rightarrow> rs)
                in case replay_rows rws columns 1 ixs of
                     (next_id, ixs') \<Rightarrow>
                       Inr (Some \<lparr>schema = columns, data = table_data, indexes = ixs',
                                  next_row_id = next_id\<rparr>))))"

fun load_tables :: "Storage \<Rightarrow> string list \<Rightarrow> (string \<rightharpoonup> Table) \<Rightarrow> error + (string \<rightharpoonup> Table)" where
  "load_tables st [] tbls = Inr tbls"
| "load_tables st (tn # tns) tbls =
     (case load_table st tn of
        Inl e \<Rightarrow> Inl e
      | Inr None \<Rightarrow> load_tables st tns tbls
      | Inr (Some t) \<Rightarrow> load_tables st tns (tbls(tn \<mapsto> t)))"

text \<open>\<^verbatim>\<open>QueryExecutor(storage)\<close>: the constructor, which loads every table the storage lists.\<close>

definition new_Executor :: "Storage \<Rightarrow> error + Executor" where
  "new_Executor st =
     (case load_tables st (list_tables st) Map.empty of
        Inl e \<Rightarrow> Inl e
      | Inr tbls \<Rightarrow> Inr \<lparr>storage = st, tables = tbls\<rparr>)"

definition empty_Storage :: Storage where
  "empty_Storage = \<lparr>schema_files = [], data_files = Map.empty\<rparr>"


section \<open>The parser (\<^verbatim>\<open>parser.py\<close>)\<close>

text \<open>
  Query texts are modelled as ASCII strings. \<open>is_space\<close> is \<^verbatim>\<open>str.isspace\<close> (and the
  class \<^verbatim>\<open>\s\<close> of the regular expressions), \<open>is_word\<close> the class \<^verbatim>\<open>\w\<close>, \<open>upper\<close> is
  \<^verbatim>\<open>str.upper\<close>, \<open>strip\<close> is \<^verbatim>\<open>str.strip\<close> and \<open>split_ws\<close> is \<^verbatim>\<open>str.split()\<close>.
\<close>

definition is_space :: "char \<Rightarrow> bool" where
  "is_space c \<longleftrightarrow> (let n = (of_char c :: nat) in (9 \<le> n \<and> n \<le> 13) \<or> (28 \<le> n \<and> n \<le> 32))"

definition is_digit :: "char \<Rightarrow> bool" where
  "is_digit c \<longleftrightarrow> (let n = (of_char c :: nat) in 48 \<le> n \<and> n \<le> 57)"

definition is_word :: "char \<Rightarrow> bool" where
  "is_word c \<longleftrightarrow>
     (let n = (of_char c :: nat)
      in (48 \<le> n \<and> n \<le> 57) \<or> (65 \<le> n \<and> n \<le> 90) \<or> (97 \<le> n \<and> n \<le> 122) \<or> n = 95)"

definition upper_char :: "char \<Rightarrow> char" where
  "upper_char c =
     (let n = (of_char c :: nat) in if 97 \<le> n \<and> n \<le> 122 then char_of (n - 32) else c)"

definition upper :: "string \<Rightarrow> string" where
  "upper s = map upper_char s"

definition strip :: "string \<Rightarrow> string" where
  "strip s = rev (dropWhile is_space (rev (dropWhile is_space s)))"

fun split_ws :: "string \<Rightarrow> string \<Rightarrow> string list" where
  "split_ws [] current = (if current = [] then [] else [current])"
| "split_ws (c # cs) current =
     (if is_space c then (if current = [] then split_ws cs [] else current # split_ws cs [])
      else split_ws cs (current @ [c]))"

text \<open>\<^verbatim>\<open>_split_by_commas\<close>, with its loop state: the current piece and the parenthesis depth.\<close>

fun split_by_commas_loop :: "string \<Rightarrow> string \<Rightarrow> int \<Rightarrow> string list \<Rightarrow> string list" where
  "split_by_commas_loop [] current paren_depth res =
     (if current \<noteq> [] then res @ [strip current] else res)"
| "split_by_commas_loop (c # cs) current paren_depth res =
     (if c = CHR ''('' then split_by_commas_loop cs (current @ [c]) (paren_depth + 1) res
      else if c = CHR '')'' then split_by_commas_loop cs (current @ [c]) (paren_depth - 1) res
      else if c = CHR '','' \<and> paren_depth = 0 then split_by_commas_loop cs [] paren_depth (res @ [strip current])
      else split_by_commas_loop cs (current @ [c]) paren_depth res)"

definition split_by_commas :: "string \<Rightarrow> string list" where
  "split_by_commas s = split_by_commas_loop s [] 0 []"

text \<open>
  \<open>find_sub sep s\<close>: the text before and after the first occurrence of \<open>sep\<close> in \<open>s\<close>, that
  is \<^verbatim>\<open>s.split(sep, 1)\<close> when \<^verbatim>\<open>sep in s\<close>, and \<open>None\<close> when \<open>sep\<close> does not occur.
\<close>

fun find_sub :: "string \<Rightarrow> string \<Rightarrow> (string \<times> string) option" where
  "find_sub sep [] = (if sep = [] then Some ([], []) else None)"
| "find_sub sep (c # cs) =
     (if take (length sep) (c # cs) = sep then Some ([], drop (length sep) (c # cs))
      else (case find_sub sep cs of None \<Rightarrow> None | Some (l, r) \<Rightarrow> Some (c # l, r)))"

subsection \<open>Values\<close>

definition is_digits :: "string \<Rightarrow> bool" where
  "is_digits s \<longleftrightarrow> s \<noteq> [] \<and> list_all is_digit s"

definition nat_of_digits :: "string \<Rightarrow> nat" where
  "nat_of_digits s = foldl (\<lambda>n c. 10 * n + (of_char c - 48)) 0 s"

definition int_of_string :: "string \<Rightarrow> int" where
  "int_of_string s =
     (case s of
        [] \<Rightarrow> 0
      | c # cs \<Rightarrow> (if c = CHR ''-'' then - int (nat_of_digits cs) else int (nat_of_digits s)))"

text \<open>
  \<^verbatim>\<open>_parse_value\<close>. Its last resort is Python's built-in \<^verbatim>\<open>float(text)\<close>, which is not part
  of this program: it is the parameter \<open>float_of\<close>, \<open>None\<close> where \<^verbatim>\<open>float\<close> raises.
\<close>

definition parse_value :: "(string \<Rightarrow> pyfloat option) \<Rightarrow> string \<Rightarrow> val" where
  "parse_value float_of s =
     (let value_str = strip s
      in if upper value_str = ''NULL'' then VNone
         else if upper value_str = ''TRUE'' then VBool True
         else if upper value_str = ''FALSE'' then VBool False
         else if value_str \<noteq> [] \<and> hd value_str = CHR 0x27 \<and> last value_str = CHR 0x27
              then VStr (butlast (tl value_str))
         else if value_str \<noteq> [] \<and> hd value_str = CHR 0x22 \<and> last value_str = CHR 0x22
              then VStr (butlast (tl value_str))
         else if is_digits value_str
                 \<or> (value_str \<noteq> [] \<and> hd value_str = CHR ''-'' \<and> is_digits (tl value_str))
              then VInt (int_of_string value_str)
         else (case float_of value_str of Some f \<Rightarrow> VFloat f | None \<Rightarrow> VStr value_str))"

subsection \<open>WHERE clauses\<close>

text \<open>
  One term of \<^verbatim>\<open>_parse_where_clause\<close>: the test \<^verbatim>\<open>'=' in cond\<close> comes first, the test
  \<^verbatim>\<open>'!=' in cond\<close> second, and a term that passes neither adds no condition.
\<close>

definition parse_condition :: "(string \<Rightarrow> pyfloat option) \<Rightarrow> string \<Rightarrow> condition option" where
  "parse_condition float_of cond =
     (case find_sub ''='' cond of
        Some (left, right) \<Rightarrow>
          Some \<lparr>cond_column = strip left, cond_operator = ''='',
                cond_value = parse_value float_of (strip right)\<rparr>
      | None \<Rightarrow>
          (case find_sub ''!='' cond of
             Some (left, right) \<Rightarrow>
               Some \<lparr>cond_column = strip left, cond_operator = ''!='',
                     cond_value = parse_value float_of (strip right)\<rparr>
           | None \<Rightarrow> None))"

definition parse_where_clause :: "(string \<Rightarrow> pyfloat option) \<Rightarrow> string \<Rightarrow> condition list" where
  "parse_where_clause float_of where_str =
     List.map_filter (parse_condition float_of) (split_by_commas where_str)"


subsection \<open>CREATE TABLE\<close>

text \<open>
  \<^verbatim>\<open>CREATE_TABLE_PATTERN.match\<close>, for the pattern \<^verbatim>\<open>CREATE TABLE (\w+)\s*\((.*)\)\<close> with the
  flags \<^verbatim>\<open>IGNORECASE\<close> and \<^verbatim>\<open>DOTALL\<close>: the keyword with single blanks, the longest run of
  word characters, optional white space, an opening parenthesis, and everything up to
  the last closing parenthesis of the text. The result is the pair of the two groups.
\<close>

definition before_last_paren :: "string \<Rightarrow> string option" where
  "before_last_paren s =
     (if CHR '')'' \<in> set s then Some (rev (tl (dropWhile (\<lambda>c. c \<noteq> CHR '')'') (rev s)))) else None)"

definition match_create_table :: "string \<Rightarrow> (string \<times> string) option" where
  "match_create_table q =
     (if upper (take 13 q) \<noteq> ''CREATE TABLE '' then None
      else (let rest = drop 13 q;
                table_name = takeWhile is_word rest;
                rest' = dropWhile is_space (dropWhile is_word rest)
            in if table_name = [] then None
               else (case rest' of
                       [] \<Rightarrow> None
                     | c # body \<Rightarrow>
                         (if c \<noteq> CHR ''('' then None
                          else (case before_last_paren body of
                                  None \<Rightarrow> None
                                | Some columns_str \<Rightarrow> Some (table_name, columns_str))))))"

text \<open>
  The body of the loop over the column definitions: \<open>Inr None\<close> for a blank piece, which
  is skipped; \<^verbatim>\<open>parts[1]\<close> raises \<^verbatim>\<open>IndexError\<close> when the piece is a single word.
\<close>

definition parse_column_def :: "string \<Rightarrow> error + col_def option" where
  "parse_column_def piece =
     (let col_def = strip piece
      in if col_def = [] then Inr None
         else (case split_ws col_def [] of
                 col_name # col_type # rest \<Rightarrow>
                   Inr (Some \<lparr>cd_name = col_name, cd_type = upper col_type,
                              cd_constraints = map upper rest\<rparr>)
               | _ \<Rightarrow> Inl IndexError))"

fun parse_column_defs :: "string list \<Rightarrow> error + col_def list" where
  "parse_column_defs [] = Inr []"
| "parse_column_defs (piece # pieces) =
     (case parse_column_def piece of
        Inl e \<Rightarrow> Inl e
      | Inr None \<Rightarrow> parse_column_defs pieces
      | Inr (Some cd) \<Rightarrow>
          (case parse_column_defs pieces of Inl e \<Rightarrow> Inl e | Inr cds \<Rightarrow> Inr (cd # cds)))"

definition parse_create_table :: "string \<Rightarrow> error + query" where
  "parse_create_table q =
     (case match_create_table q of
        None \<Rightarrow> Inl (SyntaxError ''Invalid CREATE TABLE syntax'')
      | Some (table_name, columns_str) \<Rightarrow>
          (case parse_column_defs (split_by_commas columns_str) of
             Inl e \<Rightarrow> Inl e
           | Inr columns \<Rightarrow> Inr (CREATE_TABLE table_name columns)))"

subsection \<open>DELETE\<close>

text \<open>
  \<^verbatim>\<open>DELETE_PATTERN.match\<close>, for \<^verbatim>\<open>DELETE FROM (\w+)(?:\s+WHERE\s+(.*))?$\<close> with the flag
  \<^verbatim>\<open>IGNORECASE\<close>. The dot matches no line feed and \<^verbatim>\<open>$\<close> matches at the end of the text
  or before a line feed that ends it: \<open>to_line_end\<close> is what \<^verbatim>\<open>(.*)$\<close> captures.
  The second component is the WHERE text, \<open>None\<close> when that group did not take part.
\<close>

definition to_line_end :: "string \<Rightarrow> string option" where
  "to_line_end s =
     (let line = takeWhile (\<lambda>c. c \<noteq> CHR 0x0A) s; rest = dropWhile (\<lambda>c. c \<noteq> CHR 0x0A) s
      in if rest = [] \<or> rest = [CHR 0x0A] then Some line else None)"

definition match_where :: "string \<Rightarrow> string option" where
  "match_where s =
     (let after_space = dropWhile is_space s;
          after_keyword = drop 5 after_space
      in if takeWhile is_space s = [] \<or> upper (take 5 after_space) \<noteq> ''WHERE''
            \<or> takeWhile is_space after_keyword = [] then None
         else to_line_end (dropWhile is_space after_keyword))"

definition match_delete :: "string \<Rightarrow> (string \<times> string option) option" where
  "match_delete q =
     (if upper (take 12 q) \<noteq> ''DELETE FROM '' then None
      else (let rest = drop 12 q;
                table_name = takeWhile is_word rest;
                rest' = dropWhile is_word rest
            in if table_name = [] then None
               else (case match_where rest' of
                       Some where_clause \<Rightarrow> Some (table_name, Some where_clause)
                     | None \<Rightarrow>
                         (if rest' = [] \<or> rest' = [CHR 0x0A] then Some (table_name, None)
                          else None))))"

definition parse_delete :: "(string \<Rightarrow> pyfloat option) \<Rightarrow> string \<Rightarrow> error + query" where
  "parse_delete float_of q =
     (case match_delete q of
        None \<Rightarrow> Inl (SyntaxError ''Invalid DELETE syntax'')
      | Some (table_name, where_clause) \<Rightarrow>
          Inr (DELETE table_name
                 (case where_clause of
                    None \<Rightarrow> None
                  | Some w \<Rightarrow> (if w = [] then None else Some (parse_where_clause float_of w)))))"


section \<open>Invariants of the executor state\<close>

definition is_float :: "val \<Rightarrow> bool" where
  "is_float v = (case v of VFloat f \<Rightarrow> True | _ \<Rightarrow> False)"

text \<open>The row-ids whose row holds, in column \<open>c\<close>, a non-null value equal (\<^verbatim>\<open>==\<close>) to \<open>w\<close>.\<close>

definition holders :: "(nat \<times> row) list \<Rightarrow> string \<Rightarrow> val \<Rightarrow> nat set" where
  "holders rws c w =
     {i. \<exists>r. map_of rws i = Some r \<and> row_get r c \<noteq> VNone \<and> py_eq (row_get r c) w}"

text \<open>
  An index on column \<open>c\<close> is in order when it is a unique index, a search returns exactly
  the row-ids holding the value, and no search returns two row-ids.
\<close>

definition index_ok :: "(nat \<times> row) list \<Rightarrow> string \<Rightarrow> Index \<Rightarrow> bool" where
  "index_ok rws c ix \<longleftrightarrow>
     index_is_unique ix \<and>
     (\<forall>w. Index_search ix w = holders rws c w) \<and>
     (\<forall>w. \<forall>i \<in> Index_search ix w. \<forall>j \<in> Index_search ix w. i = j)"

text \<open>
  The row store is in order when its keys are distinct (it is a dictionary), no stored
  value is a float, no primary-key column holds null, and the keys of every row are
  distinct (a row is a dictionary too).
\<close>

definition rows_ok :: "Column list \<Rightarrow> (nat \<times> row) list \<Rightarrow> bool" where
  "rows_ok cols rws \<longleftrightarrow>
     distinct (map fst rws) \<and>
     (\<forall>(i, r) \<in> set rws. \<forall>(k, v) \<in> set r. \<not> is_float v) \<and>
     (\<forall>col \<in> set cols. is_primary col \<longrightarrow> (\<forall>(i, r) \<in> set rws. row_get r (name col) \<noteq> VNone)) \<and>
     (\<forall>(i, r) \<in> set rws. distinct (map fst r))"

definition table_inv :: "Table \<Rightarrow> bool" where
  "table_inv t \<longleftrightarrow>
     (\<exists>rws. data t = Some rws \<and> rows_ok (schema t) rws \<and>
        (\<forall>i \<in> fst ` set rws. i < next_row_id t) \<and>
        distinct (map fst (indexes t)) \<and>
        fst ` set (indexes t) =
          {name col |col. col \<in> set (schema t) \<and> (is_primary col \<or> is_unique col)} \<and>
        (\<forall>(c, ix) \<in> set (indexes t). index_ok rws c ix))"

definition executor_inv :: "Executor \<Rightarrow> bool" where
  "executor_inv ex \<longleftrightarrow> (\<forall>tn t. tables ex tn = Some t \<longrightarrow> table_inv t)"

text \<open>The executor over an empty storage directory, and the states it reaches by
  executing statements, whether they succeed or raise.\<close>

definition fresh_Executor :: Executor where
  "fresh_Executor = \<lparr>storage = empty_Storage, tables = Map.empty\<rparr>"

inductive reachable :: "Executor \<Rightarrow> bool" where
  reachable_fresh: "reachable fresh_Executor"
| reachable_execute: "reachable ex \<Longrightarrow> execute ex q = (res, ex') \<Longrightarrow> reachable ex'"

text \<open>Running a list of statements, and the row-ids that the successful INSERTs into
  one table returned, in order.\<close>

fun run :: "Executor \<Rightarrow> query list \<Rightarrow> (error + result) list \<times> Executor" where
  "run ex [] = ([], ex)"
| "run ex (q # qs) =
     (case execute ex q of
        (res, ex') \<Rightarrow> (case run ex' qs of (rs, ex'') \<Rightarrow> (res # rs, ex'')))"

fun insert_ids :: "string \<Rightarrow> query list \<Rightarrow> (error + result) list \<Rightarrow> nat list" where
  "insert_ids tn (INSERT tn' columns vals # qs) (Inr (Inserted i) # rs) =
     (if tn' = tn then i # insert_ids tn qs rs else insert_ids tn qs rs)"
| "insert_ids tn (q # qs) (res # rs) = insert_ids tn qs rs"
| "insert_ids tn qs rs = []"

section \<open>A worked example\<close>

text \<open>
  A table with a unique column, a primary key and a second unique column, three rows,
  the last with no e-mail address; the state the executor reaches from an empty
  storage, and the table it then holds.
\<close>

definition users_columns :: "col_def list" where
  "users_columns =
     [\<lparr>cd_name = ''tag'', cd_type = ''TEXT'', cd_constraints = [''UNIQUE'']\<rparr>,
      \<lparr>cd_name = ''id'', cd_type = ''INT'', cd_constraints = [''PRIMARY KEY'']\<rparr>,
      \<lparr>cd_name = ''email'', cd_type = ''TEXT'', cd_constraints = [''UNIQUE'']\<rparr>]"

definition users_statements :: "query list" where
  "users_statements =
     [CREATE_TABLE ''users'' users_columns,
      INSERT ''users'' None [VStr ''x'', VInt 1, VStr ''a@x.com''],
      INSERT ''users'' None [VStr ''y'', VInt 2, VStr ''b@x.com''],
      INSERT ''users'' (Some [''tag'', ''id'']) [VStr ''z'', VInt 3]]"

definition users_db :: Executor where
  "users_db = snd (run fresh_Executor users_statements)"

definition users_rows :: "(nat \<times> row) list" where
  "users_rows =
     [(1, [(''tag'', VStr ''x''), (''id'', VInt 1), (''email'', VStr ''a@x.com'')]),
      (2, [(''tag'', VStr ''y''), (''id'', VInt 2), (''email'', VStr ''b@x.com'')]),
      (3, [(''tag'', VStr ''z''), (''id'', VInt 3), (''email'', VNone)])]"

definition users_table :: Table where
  "users_table =
     \<lparr>schema = [\<lparr>name = ''tag'', dtype = DT_TEXT, is_primary = False, is_unique = True\<rparr>,
                \<lparr>name = ''id'', dtype = DT_INT, is_primary = True, is_unique = True\<rparr>,
                \<lparr>name = ''email'', dtype = DT_TEXT, is_primary = False, is_unique = True\<rparr>],
      data = Some users_rows,
      indexes = [(''tag'', \<lparr>column_name = ''tag'', index_is_unique = True,
                    index_map = [KStr ''x'' \<mapsto> {1}, KStr ''y'' \<mapsto> {2}, KStr ''z'' \<mapsto> {3}]\<rparr>),
                 (''id'', \<lparr>column_name = ''id'', index_is_unique = True,
                    index_map = [KNum 1 \<mapsto> {1}, KNum 2 \<mapsto> {2}, KNum 3 \<mapsto> {3}]\<rparr>),
                 (''email'', \<lparr>column_name = ''email'', index_is_unique = True,
                    index_map = [KStr ''a@x.com'' \<mapsto> {1}, KStr ''b@x.com'' \<mapsto> {2}]\<rparr>)],
      next_row_id = 4\<rparr>"



text \<open>The row-id the next successful INSERT into a table will return: the table's
  counter, and 1 for a table still to be created.\<close>

definition next_id_of :: "Executor \<Rightarrow> string \<Rightarrow> nat" where
  "next_id_of ex tn = (case tables ex tn of None \<Rightarrow> 1 | Some t \<Rightarrow> next_row_id t)"

text \<open>Two inserts, the deletion of the second row, and then a restart.\<close>

definition ids_statements :: "query list" where
  "ids_statements =
     [CREATE_TABLE ''t'' [\<lparr>cd_name = ''a'', cd_type = ''INT'', cd_constraints = []\<rparr>],
      INSERT ''t'' None [VInt 10],
      INSERT ''t'' None [VInt 20],
      DELETE ''t'' (Some [\<lparr>cond_column = ''a'', cond_operator = ''='', cond_value = VInt 20\<rparr>])]"

text \<open>The executor constructed anew over the storage those statements leave behind.\<close>

definition ids_reloaded :: Executor where
  "ids_reloaded =
     \<lparr>storage = storage (snd (run fresh_Executor ids_statements)),
      tables = [''t'' \<mapsto>
        \<lparr>schema = [\<lparr>name = ''a'', dtype = DT_INT, is_primary = False, is_unique = False\<rparr>],
         data = Some [(1, [(''a'', VInt 10)])], indexes = [], next_row_id = 2\<rparr>]\<rparr>"

text \<open>The key a column gets in a merged row.\<close>

definition dotted :: "string \<Rightarrow> string \<Rightarrow> string" where
  "dotted tn k = tn @ ''.'' @ k"

text \<open>The example continued with a table of orders; the second order has no user.\<close>

definition orders_statements :: "query list" where
  "orders_statements =
     [CREATE_TABLE ''orders''
        [\<lparr>cd_name = ''id'', cd_type = ''INT'', cd_constraints = [''PRIMARY KEY'']\<rparr>,
         \<lparr>cd_name = ''user_id'', cd_type = ''INT'', cd_constraints = []\<rparr>],
      INSERT ''orders'' None [VInt 1, VInt 2],
      INSERT ''orders'' None [VInt 2, VNone]]"

definition shop_db :: Executor where
  "shop_db = snd (run fresh_Executor (users_statements @ orders_statements))"

definition orders_rows :: "(nat \<times> row) list" where
  "orders_rows =
     [(1, [(''id'', VInt 1), (''user_id'', VInt 2)]),
      (2, [(''id'', VInt 2), (''user_id'', VNone)])]"

definition orders_table :: Table where
  "orders_table =
     \<lparr>schema = [\<lparr>name = ''id'', dtype = DT_INT, is_primary = True, is_unique = True\<rparr>,
                \<lparr>name = ''user_id'', dtype = DT_INT, is_primary = False, is_unique = False\<rparr>],
      data = Some orders_rows,
      indexes = [(''id'', \<lparr>column_name = ''id'', index_is_unique = True,
                    index_map = [KNum 1 \<mapsto> {1}, KNum 2 \<mapsto> {2}]\<rparr>)],
      next_row_id = 3\<rparr>"

section \<open>The constraint check in the words of the specification\<close>

text \<open>
  The specification describes the shared constraint check column by column, in schema
  order: a primary-key column holding null fails with the null-primary-key error; a
  primary or unique column holding a non-null value fails with the duplicate-value error
  when that value is already present under a row-id other than the excluded one.
  \<open>first_violation\<close> is that description, read over the stored rows rather than over the
  indexes: \<open>value_taken\<close> says that a stored row other than the excluded one holds an
  equal (\<^verbatim>\<open>==\<close>) non-null value in the column.
\<close>

definition value_taken :: "(nat \<times> row) list \<Rightarrow> string \<Rightarrow> val \<Rightarrow> nat option \<Rightarrow> bool" where
  "value_taken rws c v exclude_row_id \<longleftrightarrow>
     list_ex (\<lambda>(i, r). Some i \<noteq> exclude_row_id \<and> row_get r c \<noteq> VNone \<and> py_eq (row_get r c) v) rws"

fun first_violation :: "(nat \<times> row) list \<Rightarrow> row \<Rightarrow> nat option \<Rightarrow> Column list \<Rightarrow> error option" where
  "first_violation rws r exclude_row_id [] = None"
| "first_violation rws r exclude_row_id (col # cols) =
     (if is_primary col \<and> row_get r (name col) = VNone then Some (NullPrimaryKey (name col))
      else if (is_primary col \<or> is_unique col) \<and> row_get r (name col) \<noteq> VNone \<and>
              value_taken rws (name col) (row_get r (name col)) exclude_row_id
           then Some (DuplicateValue (name col) (row_get r (name col)))
      else first_violation rws r exclude_row_id cols)"



text \<open>
  The error one iteration of the UPDATE loop raises for the row \<open>r\<close> stored under \<open>i\<close>, in
  the words of the specification: the error of the first SET assignment that names no
  column or gives a value of the wrong type, and else the first violation of the
  tentative row, the row's own id being exempt.
\<close>

definition update_error ::
  "Column list \<Rightarrow> (nat \<times> row) list \<Rightarrow> (string \<times> val) list \<Rightarrow> nat \<Rightarrow> row \<Rightarrow> error option" where
  "update_error cols rws assignments i r =
     (case assign_validated cols assignments r of
        Inl e \<Rightarrow> Some e
      | Inr r' \<Rightarrow> first_violation rws r' (Some i) cols)"

section \<open>Properties of the parser\<close>

lemma find_sub_ne_implies_eq:
  "find_sub ''!='' s = Some (l, r) \<Longrightarrow> find_sub ''='' s \<noteq> None"
proof (induction s arbitrary: l r)
  case Nil
  then show ?case by simp
next
  case (Cons c s)
  show ?case
  proof (cases "c = CHR ''=''")
    case True
    then show ?thesis by simp
  next
    case False
    show ?thesis
    proof (cases "take 2 (c # s) = ''!=''")
      case True
      then obtain s' where "s = CHR ''='' # s'"
        by (cases s) auto
      then show ?thesis using False by simp
    next
      case nomatch: False
      with Cons.prems obtain l' where "find_sub ''!='' s = Some (l', r)"
        by (auto split: option.splits if_splits)
      from Cons.IH[OF this] False show ?thesis
        by (auto split: option.splits)
    qed
  qed
qed

lemma parse_condition_operator:
  "parse_condition float_of cond = Some c \<Longrightarrow> cond_operator c = ''=''"
proof (cases "find_sub ''='' cond")
  case None
  assume pc: "parse_condition float_of cond = Some c"
  from None have "find_sub ''!='' cond = None"
    using find_sub_ne_implies_eq[of cond] by (cases "find_sub ''!='' cond") auto
  with None pc show ?thesis by (simp add: parse_condition_def)
next
  case (Some p)
  assume "parse_condition float_of cond = Some c"
  with Some show ?thesis by (cases p) (auto simp: parse_condition_def)
qed

lemma parse_where_clause_operator:
  "c \<in> set (parse_where_clause float_of where_str) \<Longrightarrow> cond_operator c = ''=''"
  by (auto simp: parse_where_clause_def List.map_filter_def dest: parse_condition_operator)

text \<open>
  C6. The claim: a WHERE term \<^verbatim>\<open>column != value\<close> is parsed into a condition on that
  column with the operator \<^verbatim>\<open>!=\<close>. The parser tests \<^verbatim>\<open>'=' in cond\<close> first, and that holds of
  every term containing \<^verbatim>\<open>!=\<close>: the term \<^verbatim>\<open>a != 5\<close> becomes the equality condition on the
  column \<^verbatim>\<open>a !\<close>, whatever the float conversion does.
\<close>

theorem where_not_equal_parsed_as_equal:
  "parse_where_clause float_of ''a != 5'' =
     [\<lparr>cond_column = ''a !'', cond_operator = ''='', cond_value = VInt 5\<rparr>]"
  by code_simp


section \<open>The invariant is preserved\<close>

subsection \<open>Values and index operations\<close>

lemma dkey_None_iff: "dkey v = KNone \<longleftrightarrow> v = VNone"
  by (cases v rule: dkey.cases) auto

lemma dkey_Nan_float: "dkey v = KNan \<Longrightarrow> is_float v"
  by (cases v rule: dkey.cases) (auto simp: is_float_def)

lemma py_eq_dkey: "\<not> is_float v \<Longrightarrow> py_eq v w \<longleftrightarrow> dkey v = dkey w"
  using dkey_Nan_float by (auto simp: py_eq_def)

lemma search_insert:
  "Index_insert ix v rid = (True, ix') \<Longrightarrow> v \<noteq> VNone \<Longrightarrow>
   Index_search ix' w = (if dkey w = dkey v then insert rid (Index_search ix w) else Index_search ix w)"
  by (auto simp: Index_insert_def Index_search_def split: if_splits option.splits)

lemma search_delete:
  "Index_search (Index_delete ix v rid) w =
     (if dkey w = dkey v then Index_search ix w - {rid} else Index_search ix w)"
  by (auto simp: Index_delete_def Index_search_def split: if_splits option.splits)

lemma insert_succeeds: "v = VNone \<or> Index_search ix v = {} \<Longrightarrow> fst (Index_insert ix v rid)"
  by (auto simp: Index_insert_def Index_search_def split: option.splits)

lemma insert_None: "Index_insert ix VNone rid = (True, ix)"
  by (simp add: Index_insert_def)

lemma unique_insert: "index_is_unique (snd (Index_insert ix v rid)) = index_is_unique ix"
  by (simp add: Index_insert_def)

lemma unique_delete: "index_is_unique (Index_delete ix v rid) = index_is_unique ix"
  by (simp add: Index_delete_def split: option.splits)

lemma holders_update:
  "distinct (map fst rws) \<Longrightarrow>
   holders (AList.update i r rws) c w =
     (holders rws c w - {i}) \<union> (if row_get r c \<noteq> VNone \<and> py_eq (row_get r c) w then {i} else {})"
  by (auto simp: holders_def update_conv')

lemma holders_delete:
  "holders (AList.delete i rws) c w = holders rws c w - {i}"
  by (auto simp: holders_def delete_conv')

lemma holders_fresh: "i \<notin> fst ` set rws \<Longrightarrow> i \<notin> holders rws c w"
  by (auto simp: holders_def dest!: map_of_SomeD intro: rev_image_eqI)


lemma not_has_value: "\<not> Index_has_value ix v \<Longrightarrow> Index_search ix v = {}"
  by (simp add: Index_has_value_def Index_search_def)

lemma check_constraints_NoneD:
  assumes "check_constraints ixs r excl cols = None" "col \<in> set cols"
  shows "(is_primary col \<longrightarrow> row_get r (name col) \<noteq> VNone) \<and>
         ((is_primary col \<or> is_unique col) \<and> row_get r (name col) \<noteq> VNone \<longrightarrow>
            (\<exists>ix. map_of ixs (name col) = Some ix \<and>
               Index_search ix (row_get r (name col)) - (case excl of None \<Rightarrow> {} | Some i \<Rightarrow> {i}) = {}))"
  using assms
proof (induction cols)
  case Nil
  then show ?case by simp
next
  case (Cons a cols)
  from Cons.prems(1) have rest: "check_constraints ixs r excl cols = None"
    by (auto simp: Let_def split: if_splits option.splits)
  show ?case
  proof (cases "col = a")
    case True
    with Cons.prems(1) show ?thesis
      by (auto simp: Let_def dest: not_has_value split: if_splits option.splits)
  next
    case False
    with Cons.prems(2) have "col \<in> set cols" by simp
    with Cons.IH rest show ?thesis by blast
  qed
qed

lemma insert_indexes_all:
  assumes "\<forall>(c, ix) \<in> set ixs. row_get r c = VNone \<or> Index_search ix (row_get r c) = {}"
  shows "insert_indexes r rid ixs =
           (map (\<lambda>(c, ix). (c, snd (Index_insert ix (row_get r c) rid))) ixs, None)"
  using assms
proof (induction ixs)
  case Nil
  then show ?case by simp
next
  case (Cons p ixs)
  obtain c ix where p: "p = (c, ix)" by (cases p)
  from Cons.prems p have "fst (Index_insert ix (row_get r c) rid)"
    by (intro insert_succeeds) auto
  then obtain ix' where ins: "Index_insert ix (row_get r c) rid = (True, ix')"
    by (cases "Index_insert ix (row_get r c) rid") auto
  from Cons.prems have "\<forall>(c, ix) \<in> set ixs. row_get r c = VNone \<or> Index_search ix (row_get r c) = {}"
    by simp
  from Cons.IH[OF this] ins p show ?case by simp
qed

lemma index_ok_insert:
  assumes ok: "index_ok rws c ix" and d: "distinct (map fst rws)" and fresh: "rid \<notin> fst ` set rws"
    and free: "row_get r c = VNone \<or> Index_search ix (row_get r c) = {}"
    and nf: "\<not> is_float (row_get r c)"
  shows "index_ok (AList.update rid r rws) c (snd (Index_insert ix (row_get r c) rid))"
proof (cases "row_get r c = VNone")
  case True
  with ok d fresh show ?thesis
    using holders_fresh[OF fresh]
    by (auto simp: index_ok_def insert_None holders_update)
next
  case False
  with free have emp: "Index_search ix (row_get r c) = {}" by simp
  from insert_succeeds[OF free, of rid] obtain ix' where ins: "Index_insert ix (row_get r c) rid = (True, ix')"
    by (cases "Index_insert ix (row_get r c) rid") auto
  have s: "\<And>w. Index_search ix' w = (if dkey w = dkey (row_get r c) then {rid} else Index_search ix w)"
  proof -
    fix w
    have "dkey w = dkey (row_get r c) \<Longrightarrow> Index_search ix w = Index_search ix (row_get r c)"
      by (simp add: Index_search_def)
    with emp search_insert[OF ins False, of w] show "Index_search ix' w = (if dkey w = dkey (row_get r c) then {rid} else Index_search ix w)"
      by auto
  qed
  have u: "index_is_unique ix'" using unique_insert[of ix "row_get r c" rid] ins ok by (simp add: index_ok_def)
  have h: "\<And>w. holders (AList.update rid r rws) c w = (if dkey w = dkey (row_get r c) then insert rid (holders rws c w) else holders rws c w)"
    using holders_fresh[OF fresh] False nf by (auto simp: holders_update[OF d] py_eq_dkey)
  have e: "\<And>w. dkey w = dkey (row_get r c) \<Longrightarrow> holders rws c w = {}"
  proof -
    fix w assume "dkey w = dkey (row_get r c)"
    then have "Index_search ix w = Index_search ix (row_get r c)" by (simp add: Index_search_def)
    with ok emp show "holders rws c w = {}" by (simp add: index_ok_def)
  qed
  from ok u show ?thesis unfolding index_ok_def ins snd_conv
    by (auto simp: s h e)
qed


lemma set_update_distinct:
  "distinct (map fst al) \<Longrightarrow> set (AList.update k v al) = insert (k, v) {p \<in> set al. fst p \<noteq> k}"
  by (induction al) (auto simp: rev_image_eqI)

lemma validate_not_float: "validate_value col v \<Longrightarrow> \<not> is_float v"
  by (cases v) (auto simp: validate_value_def is_float_def split: DataType.splits)

lemma set_update_subset: "set (AList.update k v al) \<subseteq> insert (k, v) (set al)"
  by (induction al) auto

lemma assign_validated_not_float:
  "assign_validated cols asg r = Inr r' \<Longrightarrow> \<forall>(k, v) \<in> set r. \<not> is_float v \<Longrightarrow>
   \<forall>(k, v) \<in> set r'. \<not> is_float v"
proof (induction cols asg r rule: assign_validated.induct)
  case (1 cols r)
  then show ?case by simp
next
  case (2 cols c v rest r)
  from "2.prems"(1) obtain cd where f: "find (\<lambda>col. name col = c) cols = Some cd"
    and v: "validate_value cd v" and rec: "assign_validated cols rest (AList.update c v r) = Inr r'"
    by (auto split: option.splits if_splits)
  have "\<forall>(k, v) \<in> set (AList.update c v r). \<not> is_float v"
    using set_update_subset[of c v r] "2.prems"(2) validate_not_float[OF v] by auto
  from "2.IH"[OF f _ rec this] v show ?case by simp
qed

lemma fill_missing_not_float:
  "\<forall>(k, v) \<in> set r. \<not> is_float v \<Longrightarrow> \<forall>(k, v) \<in> set (fill_missing cols r). \<not> is_float v"
proof (induction cols arbitrary: r)
  case Nil
  then show ?case by simp
next
  case (Cons col cols)
  have "\<forall>(k, v) \<in> set (AList.update (name col) VNone r). \<not> is_float v"
    using set_update_subset[of "name col" VNone r] Cons.prems by (auto simp: is_float_def)
  with Cons show ?case by simp
qed

lemma row_get_not_float: "\<forall>(k, v) \<in> set r. \<not> is_float v \<Longrightarrow> \<not> is_float (row_get r c)"
  by (auto simp: row_get_def is_float_def split: option.splits dest!: map_of_SomeD)

lemma index_of_unique_column:
  assumes "fst ` set ixs = {name col |col. col \<in> set cols \<and> (is_primary col \<or> is_unique col)}"
    and "(c, ix) \<in> set ixs"
  obtains col where "col \<in> set cols" "name col = c" "is_primary col \<or> is_unique col"
proof -
  from assms(2) have "c \<in> fst ` set ixs" by force
  with assms(1) show ?thesis using that by auto
qed

lemma constraints_free:
  assumes cc: "check_constraints ixs r excl cols = None"
    and keys: "fst ` set ixs = {name col |col. col \<in> set cols \<and> (is_primary col \<or> is_unique col)}"
    and d: "distinct (map fst ixs)"
    and mem: "(c, ix) \<in> set ixs"
  shows "row_get r c = VNone \<or>
         Index_search ix (row_get r c) - (case excl of None \<Rightarrow> {} | Some i \<Rightarrow> {i}) = {}"
proof -
  from index_of_unique_column[OF keys mem] obtain col
    where col: "col \<in> set cols" "name col = c" "is_primary col \<or> is_unique col" by blast
  from d mem have m: "map_of ixs c = Some ix" by simp
  from check_constraints_NoneD[OF cc col(1)] col(2,3) m show ?thesis by auto
qed

lemma constraints_primary:
  assumes "check_constraints ixs r excl cols = None" "col \<in> set cols" "is_primary col"
  shows "row_get r (name col) \<noteq> VNone"
  using check_constraints_NoneD[OF assms(1,2)] assms(3) by simp

lemma assign_validated_distinct:
  "assign_validated cols asg r = Inr r' \<Longrightarrow> distinct (map fst r) \<Longrightarrow> distinct (map fst r')"
proof (induction cols asg r rule: assign_validated.induct)
  case (1 cols r)
  then show ?case by simp
next
  case (2 cols c v rest r)
  from "2.prems"(1) obtain cd where f: "find (\<lambda>col. name col = c) cols = Some cd"
    and v: "validate_value cd v" and rec: "assign_validated cols rest (AList.update c v r) = Inr r'"
    by (auto split: option.splits if_splits)
  have "distinct (map fst (AList.update c v r))" using "2.prems"(2) by (simp add: distinct_update)
  from "2.IH"[OF f _ rec this] v show ?case by simp
qed

lemma fill_missing_distinct: "distinct (map fst r) \<Longrightarrow> distinct (map fst (fill_missing cols r))"
  by (induction cols arbitrary: r) (simp_all add: distinct_update)

lemma insert_row_inv:
  assumes inv: "table_inv t" and ins: "insert_row t columns vals = (res, t')"
  shows "table_inv t'"
proof -
  from inv obtain rws where rws: "data t = Some rws" "rows_ok (schema t) rws"
    "\<forall>i \<in> fst ` set rws. i < next_row_id t" "distinct (map fst (indexes t))"
    "fst ` set (indexes t) = {name col |col. col \<in> set (schema t) \<and> (is_primary col \<or> is_unique col)}"
    "\<forall>(c, ix) \<in> set (indexes t). index_ok rws c ix"
    unfolding table_inv_def by blast
  define col_names where "col_names = (case columns of None \<Rightarrow> map name (schema t)
       | Some [] \<Rightarrow> map name (schema t) | Some cs \<Rightarrow> cs)"
  show ?thesis
  proof (cases "length col_names \<noteq> length vals")
    case True
    with ins rws(1) inv show ?thesis by (simp add: insert_row_def col_names_def Let_def)
  next
    case len: False
    show ?thesis
    proof (cases "assign_validated (schema t) (zip col_names vals) []")
      case (Inl e)
      with ins rws(1) inv len show ?thesis by (simp add: insert_row_def col_names_def Let_def)
    next
      case (Inr rd)
      define row_data where "row_data = fill_missing (schema t) rd"
      have nf: "\<forall>(k, v) \<in> set row_data. \<not> is_float v"
        unfolding row_data_def using assign_validated_not_float[OF Inr] fill_missing_not_float by simp
      have dk: "distinct (map fst row_data)"
        unfolding row_data_def using assign_validated_distinct[OF Inr] fill_missing_distinct by simp
      show ?thesis
      proof (cases "check_constraints (indexes t) row_data None (schema t)")
        case (Some e)
        with ins rws(1) inv len Inr show ?thesis
          by (simp add: insert_row_def col_names_def Let_def row_data_def)
      next
        case None
        define rid where "rid = next_row_id t"
        have fresh: "rid \<notin> fst ` set rws" using rws(3) by (auto simp: rid_def)
        have free: "\<forall>(c, ix) \<in> set (indexes t). row_get row_data c = VNone \<or> Index_search ix (row_get row_data c) = {}"
          using constraints_free[OF None rws(5) rws(4)] by auto
        let ?ixs = "map (\<lambda>(c, ix). (c, snd (Index_insert ix (row_get row_data c) rid))) (indexes t)"
        from insert_indexes_all[OF free, of rid]
        have ii: "insert_indexes row_data rid (indexes t) = (?ixs, None)" .
        from ins rws(1) len Inr None ii
        have t': "t' = t\<lparr>data := Some (AList.update rid row_data rws), indexes := ?ixs,
                      next_row_id := next_row_id t + 1\<rparr>"
          by (simp add: insert_row_def col_names_def Let_def row_data_def rid_def)
        have d: "distinct (map fst rws)" using rws(2) by (simp add: rows_ok_def)
        have set_new: "set (AList.update rid row_data rws) = insert (rid, row_data) (set rws)"
          using set_update_distinct[OF d, of rid row_data] fresh by force
        have ro: "rows_ok (schema t) (AList.update rid row_data rws)"
          unfolding rows_ok_def
        proof (intro conjI)
          show "distinct (map fst (AList.update rid row_data rws))" using d by (simp add: distinct_update)
          show "\<forall>(i, r) \<in> set (AList.update rid row_data rws). \<forall>(k, v) \<in> set r. \<not> is_float v"
            using rws(2) nf unfolding set_new rows_ok_def by auto
          show "\<forall>col \<in> set (schema t). is_primary col \<longrightarrow>
                  (\<forall>(i, r) \<in> set (AList.update rid row_data rws). row_get r (name col) \<noteq> VNone)"
            using rws(2) constraints_primary[OF None] unfolding set_new rows_ok_def by auto
          show "\<forall>(i, r) \<in> set (AList.update rid row_data rws). distinct (map fst r)"
            using rws(2) dk unfolding set_new rows_ok_def by auto
        qed
        have keys: "map fst ?ixs = map fst (indexes t)" by (induction "indexes t") (auto simp: case_prod_beta)
        have iok: "\<forall>(c, ix) \<in> set ?ixs. index_ok (AList.update rid row_data rws) c ix"
        proof -
          { fix c ix assume m: "(c, ix) \<in> set (indexes t)"
            from rws(6) m have ok: "index_ok rws c ix" by auto
            from free m have fr: "row_get row_data c = VNone \<or> Index_search ix (row_get row_data c) = {}" by auto
            have "index_ok (AList.update rid row_data rws) c (snd (Index_insert ix (row_get row_data c) rid))"
              by (rule index_ok_insert[OF ok d fresh fr row_get_not_float[OF nf]]) }
          then show ?thesis by auto
        qed
        have lt: "\<forall>i \<in> fst ` set (AList.update rid row_data rws). i < next_row_id t + 1"
          using rws(3) unfolding set_new by (auto simp: rid_def less_Suc_eq)
        have keyset: "fst ` set ?ixs = fst ` set (indexes t)"
          using keys by (metis set_map)
        show ?thesis unfolding table_inv_def
        proof (intro exI[of _ "AList.update rid row_data rws"] conjI)
          show "data t' = Some (AList.update rid row_data rws)" by (simp add: t')
          show "rows_ok (schema t') (AList.update rid row_data rws)" using ro by (simp add: t')
          show "\<forall>i \<in> fst ` set (AList.update rid row_data rws). i < next_row_id t'"
            using lt by (simp add: t')
          show "distinct (map fst (indexes t'))" using rws(4) keys by (simp add: t' del: map_map)
          show "fst ` set (indexes t') =
                {name col |col. col \<in> set (schema t') \<and> (is_primary col \<or> is_unique col)}"
            using rws(5) keyset by (simp add: t' del: set_map)
          show "\<forall>(c, ix) \<in> set (indexes t'). index_ok (AList.update rid row_data rws) c ix"
            using iok by (simp add: t' del: set_map)
        qed
      qed
    qed
  qed
qed

subsection \<open>UPDATE and DELETE keep the invariant\<close>

lemma search_cong: "dkey w = dkey v \<Longrightarrow> Index_search ix w = Index_search ix v"
  by (simp add: Index_search_def)

lemma py_eq_imp_dkey: "py_eq a b \<Longrightarrow> dkey a = dkey b"
  by (simp add: py_eq_def)

lemma holder_iff:
  "map_of rws i = Some r \<Longrightarrow> i \<in> holders rws c w \<longleftrightarrow> row_get r c \<noteq> VNone \<and> py_eq (row_get r c) w"
  by (simp add: holders_def)

lemma index_ok_delete_step:
  assumes ok: "index_ok rws c ix" and m: "map_of rws rid = Some r"
  shows "index_is_unique (Index_delete ix (row_get r c) rid)"
    and "Index_search (Index_delete ix (row_get r c) rid) w = holders rws c w - {rid}"
proof -
  show "index_is_unique (Index_delete ix (row_get r c) rid)"
    using ok by (simp add: unique_delete index_ok_def)
  have s: "\<And>w. Index_search ix w = holders rws c w" using ok by (simp add: index_ok_def)
  show "Index_search (Index_delete ix (row_get r c) rid) w = holders rws c w - {rid}"
  proof (cases "dkey w = dkey (row_get r c)")
    case True
    then show ?thesis by (simp add: search_delete s)
  next
    case False
    then have "rid \<notin> holders rws c w"
      using holder_iff[OF m, of c w] py_eq_imp_dkey[of "row_get r c" w] by auto
    with False show ?thesis by (simp add: search_delete s)
  qed
qed

lemma index_ok_delete:
  assumes ok: "index_ok rws c ix" and m: "map_of rws rid = Some r"
  shows "index_ok (AList.delete rid rws) c (Index_delete ix (row_get r c) rid)"
  unfolding index_ok_def
proof (intro conjI allI)
  show "index_is_unique (Index_delete ix (row_get r c) rid)" by (rule index_ok_delete_step[OF ok m])
  fix w
  show "Index_search (Index_delete ix (row_get r c) rid) w = holders (AList.delete rid rws) c w"
    by (simp add: index_ok_delete_step(2)[OF ok m] holders_delete)
  show "\<forall>i\<in>Index_search (Index_delete ix (row_get r c) rid) w.
          \<forall>j\<in>Index_search (Index_delete ix (row_get r c) rid) w. i = j"
    using ok by (auto simp: index_ok_delete_step(2)[OF ok m] index_ok_def)
qed

lemma index_ok_update_same:
  assumes ok: "index_ok rws c ix" and d: "distinct (map fst rws)" and m: "map_of rws rid = Some r"
    and eq: "py_eq (row_get r c) (row_get r' c)"
  shows "index_ok (AList.update rid r' rws) c ix"
proof -
  from eq have k: "dkey (row_get r c) = dkey (row_get r' c)" and nn: "dkey (row_get r c) \<noteq> KNan"
    by (auto simp: py_eq_def)
  have none: "row_get r c = VNone \<longleftrightarrow> row_get r' c = VNone"
    using k dkey_None_iff by metis
  have "holders (AList.update rid r' rws) c w = holders rws c w" for w
  proof -
    have pe: "py_eq (row_get r' c) w \<longleftrightarrow> py_eq (row_get r c) w"
      using k by (simp add: py_eq_def)
    have mem: "rid \<in> holders rws c w \<longleftrightarrow> row_get r' c \<noteq> VNone \<and> py_eq (row_get r' c) w"
      unfolding holder_iff[OF m] none pe ..
    have "holders (AList.update rid r' rws) c w =
          (holders rws c w - {rid}) \<union> (if rid \<in> holders rws c w then {rid} else {})"
      unfolding holders_update[OF d] mem ..
    then show ?thesis by auto
  qed
  with ok show ?thesis by (simp add: index_ok_def)
qed

lemma index_ok_update_changed:
  assumes ok: "index_ok rws c ix" and d: "distinct (map fst rws)" and m: "map_of rws rid = Some r"
    and ne: "\<not> py_eq (row_get r c) (row_get r' c)"
    and free: "row_get r' c = VNone \<or> Index_search ix (row_get r' c) - {rid} = {}"
    and nf: "\<not> is_float (row_get r c)" "\<not> is_float (row_get r' c)"
  shows "fst (Index_update ix (row_get r c) (row_get r' c) rid)"
    and "index_ok (AList.update rid r' rws) c (snd (Index_update ix (row_get r c) (row_get r' c) rid))"
proof -
  let ?old = "row_get r c" and ?new = "row_get r' c"
  let ?ix1 = "Index_delete ix ?old rid"
  have s1: "\<And>w. Index_search ?ix1 w = holders rws c w - {rid}"
    by (rule index_ok_delete_step(2)[OF ok m])
  have u1: "index_is_unique ?ix1" by (rule index_ok_delete_step(1)[OF ok m])
  have s: "\<And>w. Index_search ix w = holders rws c w" using ok by (simp add: index_ok_def)
  have one: "\<And>w. \<forall>i\<in>holders rws c w. \<forall>j\<in>holders rws c w. i = j"
    using ok by (simp add: index_ok_def)
  have free1: "?new = VNone \<or> Index_search ?ix1 ?new = {}"
    using free by (auto simp: s1 s)
  have succ: "fst (Index_insert ?ix1 ?new rid)" by (rule insert_succeeds[OF free1])
  then show "fst (Index_update ix ?old ?new rid)" by (simp add: Index_update_def)
  have "index_ok (AList.update rid r' rws) c (snd (Index_insert ?ix1 ?new rid))"
  proof (cases "?new = VNone")
    case True
    have h: "\<And>w. holders (AList.update rid r' rws) c w = holders rws c w - {rid}"
      by (simp add: holders_update[OF d] True)
    have "index_ok (AList.update rid r' rws) c ?ix1"
      unfolding index_ok_def s1 h using u1 one by blast
    then show ?thesis by (simp add: True insert_None)
  next
    case False
    with free1 have emp: "Index_search ?ix1 ?new = {}" by simp
    from succ obtain ix2 where ins: "Index_insert ?ix1 ?new rid = (True, ix2)"
      by (cases "Index_insert ?ix1 ?new rid") auto
    have s2: "Index_search ix2 w = (if dkey w = dkey ?new then {rid} else holders rws c w - {rid})" for w
    proof (cases "dkey w = dkey ?new")
      case True
      from search_cong[OF True, of ?ix1] emp have "Index_search ?ix1 w = {}" by simp
      with search_insert[OF ins False, of w] True show ?thesis by simp
    next
      case False
      with search_insert[OF ins \<open>?new \<noteq> VNone\<close>, of w] show ?thesis by (simp add: s1)
    qed
    have u2: "index_is_unique ix2" using unique_insert[of ?ix1 ?new rid] ins u1 by simp
    have h: "holders (AList.update rid r' rws) c w =
                 (if dkey w = dkey ?new then {rid} else holders rws c w - {rid})" for w
    proof (cases "dkey w = dkey ?new")
      case True
      from search_cong[OF True, of ?ix1] emp have "holders rws c w - {rid} = {}" by (simp add: s1)
      moreover from True nf(2) have "py_eq ?new w" by (simp add: py_eq_dkey)
      ultimately show ?thesis using True False by (simp add: holders_update[OF d])
    next
      case ne: False
      with nf(2) have "\<not> py_eq ?new w" by (auto simp: py_eq_dkey)
      with ne show ?thesis by (simp add: holders_update[OF d])
    qed
    have "\<forall>i\<in>Index_search ix2 w. \<forall>j\<in>Index_search ix2 w. i = j" for w
      unfolding s2 using one[of w] by (cases "dkey w = dkey ?new") auto
    then show ?thesis unfolding ins snd_conv index_ok_def
      using u2 by (simp add: s2 h)
  qed
  then show "index_ok (AList.update rid r' rws) c (snd (Index_update ix ?old ?new rid))"
    by (simp add: Index_update_def)
qed

lemma update_indexes_all:
  assumes "\<forall>(c, ix) \<in> set ixs. py_eq (row_get r c) (row_get r' c) \<or>
             fst (Index_update ix (row_get r c) (row_get r' c) rid)"
  shows "update_indexes r r' rid ixs =
           (map (\<lambda>(c, ix). (c, if py_eq (row_get r c) (row_get r' c) then ix
                               else snd (Index_update ix (row_get r c) (row_get r' c) rid))) ixs, None)"
  using assms
proof (induction ixs)
  case Nil
  then show ?case by simp
next
  case (Cons p ixs)
  obtain c ix where p: "p = (c, ix)" by (cases p)
  from Cons.prems have rest: "\<forall>(c, ix) \<in> set ixs. py_eq (row_get r c) (row_get r' c) \<or>
             fst (Index_update ix (row_get r c) (row_get r' c) rid)" by simp
  show ?case
  proof (cases "py_eq (row_get r c) (row_get r' c)")
    case True
    with Cons.IH[OF rest] p show ?thesis by simp
  next
    case False
    with Cons.prems p have "fst (Index_update ix (row_get r c) (row_get r' c) rid)" by auto
    then obtain ix' where "Index_update ix (row_get r c) (row_get r' c) rid = (True, ix')"
      by (cases "Index_update ix (row_get r c) (row_get r' c) rid") auto
    with Cons.IH[OF rest] p False show ?thesis by simp
  qed
qed


lemma map_index_keys: "map fst (map (\<lambda>(c, ix). (c, f c ix)) ixs) = map fst ixs"
  by (induction ixs) auto

lemma table_invI:
  assumes "data t = Some rws" "rows_ok (schema t) rws" "\<forall>i \<in> fst ` set rws. i < next_row_id t"
    "distinct (map fst (indexes t))"
    "fst ` set (indexes t) = {name col |col. col \<in> set (schema t) \<and> (is_primary col \<or> is_unique col)}"
    "\<forall>(c, ix) \<in> set (indexes t). index_ok rws c ix"
  shows "table_inv t"
  unfolding table_inv_def using assms by blast

lemma table_invE:
  assumes "table_inv t"
  obtains rws where "data t = Some rws" "rows_ok (schema t) rws" "\<forall>i \<in> fst ` set rws. i < next_row_id t"
    "distinct (map fst (indexes t))"
    "fst ` set (indexes t) = {name col |col. col \<in> set (schema t) \<and> (is_primary col \<or> is_unique col)}"
    "\<forall>(c, ix) \<in> set (indexes t). index_ok rws c ix"
  using assms unfolding table_inv_def by blast

lemma update_one_inv:
  assumes inv: "table_inv t" and upd: "update_one asg rid t = (res, t')"
  shows "table_inv t'"
proof -
  from inv obtain rws where rws: "data t = Some rws" "rows_ok (schema t) rws"
    "\<forall>i \<in> fst ` set rws. i < next_row_id t" "distinct (map fst (indexes t))"
    "fst ` set (indexes t) = {name col |col. col \<in> set (schema t) \<and> (is_primary col \<or> is_unique col)}"
    "\<forall>(c, ix) \<in> set (indexes t). index_ok rws c ix"
    by (rule table_invE)
  show ?thesis
  proof (cases "map_of rws rid")
    case None
    with upd rws(1) inv show ?thesis by (simp add: update_one_def)
  next
    case (Some r)
    show ?thesis
    proof (cases "assign_validated (schema t) asg r")
      case (Inl e)
      with upd rws(1) inv Some show ?thesis by (simp add: update_one_def)
    next
      case (Inr r')
      show ?thesis
      proof (cases "check_constraints (indexes t) r' (Some rid) (schema t)")
        case (Some e)
        with upd rws(1) inv \<open>map_of rws rid = Some r\<close> Inr show ?thesis by (simp add: update_one_def)
      next
        case None
        have d: "distinct (map fst rws)" using rws(2) by (simp add: rows_ok_def)
        have mem: "(rid, r) \<in> set rws" using \<open>map_of rws rid = Some r\<close> by (rule map_of_SomeD)
        have nfr: "\<forall>(k, v) \<in> set r. \<not> is_float v" using rws(2) mem by (auto simp: rows_ok_def)
        have nfr': "\<forall>(k, v) \<in> set r'. \<not> is_float v" by (rule assign_validated_not_float[OF Inr nfr])
        have dkr: "distinct (map fst r)" using rws(2) mem by (auto simp: rows_ok_def)
        have dkr': "distinct (map fst r')" by (rule assign_validated_distinct[OF Inr dkr])
        let ?f = "\<lambda>c ix. if py_eq (row_get r c) (row_get r' c) then ix
                         else snd (Index_update ix (row_get r c) (row_get r' c) rid)"
        let ?ixs = "map (\<lambda>(c, ix). (c, ?f c ix)) (indexes t)"
        let ?rws = "AList.update rid r' rws"
        have each: "(py_eq (row_get r c) (row_get r' c) \<or> fst (Index_update ix (row_get r c) (row_get r' c) rid))
                    \<and> index_ok ?rws c (?f c ix)" if m: "(c, ix) \<in> set (indexes t)" for c ix
        proof -
          from rws(6) m have ok: "index_ok rws c ix" by auto
          from constraints_free[OF None rws(5) rws(4) m]
          have fr: "row_get r' c = VNone \<or> Index_search ix (row_get r' c) - {rid} = {}" by simp
          show ?thesis
          proof (cases "py_eq (row_get r c) (row_get r' c)")
            case True
            with index_ok_update_same[OF ok d \<open>map_of rws rid = Some r\<close> True] show ?thesis by simp
          next
            case False
            from index_ok_update_changed[OF ok d \<open>map_of rws rid = Some r\<close> False fr
                 row_get_not_float[OF nfr] row_get_not_float[OF nfr']] False
            show ?thesis by simp
          qed
        qed
        have "update_indexes r r' rid (indexes t) = (?ixs, None)"
          by (rule update_indexes_all) (use each in auto)
        with upd rws(1) \<open>map_of rws rid = Some r\<close> Inr None
        have t': "t' = t\<lparr>data := Some ?rws, indexes := ?ixs\<rparr>"
          by (simp add: update_one_def)
        have set_new: "set ?rws = insert (rid, r') {p \<in> set rws. fst p \<noteq> rid}"
          by (rule set_update_distinct[OF d])
        have ro: "rows_ok (schema t) ?rws"
          unfolding rows_ok_def
        proof (intro conjI)
          show "distinct (map fst ?rws)" using d by (simp add: distinct_update)
          show "\<forall>(i, r) \<in> set ?rws. \<forall>(k, v) \<in> set r. \<not> is_float v"
            using rws(2) nfr' unfolding set_new rows_ok_def by auto
          show "\<forall>col \<in> set (schema t). is_primary col \<longrightarrow>
                  (\<forall>(i, r) \<in> set ?rws. row_get r (name col) \<noteq> VNone)"
            using rws(2) constraints_primary[OF None] unfolding set_new rows_ok_def by auto
          show "\<forall>(i, r) \<in> set ?rws. distinct (map fst r)"
            using rws(2) dkr' unfolding set_new rows_ok_def by auto
        qed
        have keys: "map fst ?ixs = map fst (indexes t)" by (rule map_index_keys)
        have keyset: "fst ` set ?ixs = fst ` set (indexes t)"
          using keys by (metis set_map)
        have dom: "fst ` set ?rws = fst ` set rws"
          using mem by (auto simp: dom_update intro: rev_image_eqI)
        show ?thesis
        proof (rule table_invI[of _ ?rws])
          show "data t' = Some ?rws" by (simp add: t')
          show "rows_ok (schema t') ?rws" using ro by (simp add: t')
          show "\<forall>i \<in> fst ` set ?rws. i < next_row_id t'" using rws(3) unfolding dom by (simp add: t')
          show "distinct (map fst (indexes t'))" using rws(4) keys by (simp add: t' del: map_map)
          show "fst ` set (indexes t') =
                {name col |col. col \<in> set (schema t') \<and> (is_primary col \<or> is_unique col)}"
            using rws(5) keyset by (simp add: t' del: set_map)
          show "\<forall>(c, ix) \<in> set (indexes t'). index_ok ?rws c ix"
            using each by (auto simp: t')
        qed
      qed
    qed
  qed
qed

lemma update_rows_inv:
  "table_inv t \<Longrightarrow> update_rows asg ids t n = (res, t') \<Longrightarrow> table_inv t'"
proof (induction ids arbitrary: t n)
  case Nil
  then show ?case by simp
next
  case (Cons i ids)
  obtain e t1 where u: "update_one asg i t = (e, t1)" by (cases "update_one asg i t")
  from update_one_inv[OF Cons.prems(1) u] have inv1: "table_inv t1" .
  show ?case
  proof (cases e)
    case None
    with Cons.prems(2) u have "update_rows asg ids t1 (n + 1) = (res, t')" by simp
    from Cons.IH[OF inv1 this] show ?thesis .
  next
    case (Some a)
    with Cons.prems(2) u inv1 show ?thesis by simp
  qed
qed

lemma delete_one_inv:
  assumes inv: "table_inv t" and del: "delete_one rid t = (res, t')"
  shows "table_inv t'"
proof -
  from inv obtain rws where rws: "data t = Some rws" "rows_ok (schema t) rws"
    "\<forall>i \<in> fst ` set rws. i < next_row_id t" "distinct (map fst (indexes t))"
    "fst ` set (indexes t) = {name col |col. col \<in> set (schema t) \<and> (is_primary col \<or> is_unique col)}"
    "\<forall>(c, ix) \<in> set (indexes t). index_ok rws c ix"
    by (rule table_invE)
  show ?thesis
  proof (cases "map_of rws rid")
    case None
    with del rws(1) inv show ?thesis by (simp add: delete_one_def)
  next
    case (Some r)
    let ?ixs = "map (\<lambda>(c, ix). (c, Index_delete ix (row_get r c) rid)) (indexes t)"
    let ?rws = "AList.delete rid rws"
    from del rws(1) Some have t': "t' = t\<lparr>data := Some ?rws, indexes := ?ixs\<rparr>"
      by (simp add: delete_one_def)
    have sub: "set ?rws \<subseteq> set rws" by (auto simp: AList.delete_eq)
    have sub': "\<And>p. p \<in> set ?rws \<Longrightarrow> p \<in> set rws" using sub by blast
    have ro: "rows_ok (schema t) ?rws"
      using rws(2) unfolding rows_ok_def by (auto simp: distinct_delete dest!: sub')
    have keys: "map fst ?ixs = map fst (indexes t)" by (rule map_index_keys)
    have keyset: "fst ` set ?ixs = fst ` set (indexes t)"
      using keys by (metis set_map)
    show ?thesis
    proof (rule table_invI[of _ ?rws])
      show "data t' = Some ?rws" by (simp add: t')
      show "rows_ok (schema t') ?rws" using ro by (simp add: t')
      show "\<forall>i \<in> fst ` set ?rws. i < next_row_id t'" using rws(3) sub by (auto simp: t')
      show "distinct (map fst (indexes t'))" using rws(4) keys by (simp add: t' del: map_map)
      show "fst ` set (indexes t') =
            {name col |col. col \<in> set (schema t') \<and> (is_primary col \<or> is_unique col)}"
        using rws(5) keyset by (simp add: t' del: set_map)
      show "\<forall>(c, ix) \<in> set (indexes t'). index_ok ?rws c ix"
        using rws(6) index_ok_delete[OF _ Some] by (auto simp: t')
    qed
  qed
qed

lemma delete_rows_inv:
  "table_inv t \<Longrightarrow> delete_rows ids t n = (res, t') \<Longrightarrow> table_inv t'"
proof (induction ids arbitrary: t n)
  case Nil
  then show ?case by simp
next
  case (Cons i ids)
  obtain e t1 where u: "delete_one i t = (e, t1)" by (cases "delete_one i t")
  from delete_one_inv[OF Cons.prems(1) u] have inv1: "table_inv t1" .
  show ?case
  proof (cases e)
    case None
    with Cons.prems(2) u have "delete_rows ids t1 (n + 1) = (res, t')" by simp
    from Cons.IH[OF inv1 this] show ?thesis .
  next
    case (Some a)
    with Cons.prems(2) u inv1 show ?thesis by simp
  qed
qed

subsection \<open>Every statement keeps the invariant\<close>

lemma create_indexes_props:
  assumes "distinct (map fst ixs)"
    and "\<forall>(c, ix) \<in> set ixs. index_is_unique ix \<and> index_map ix = Map.empty"
  shows "distinct (map fst (create_indexes cols ixs)) \<and>
         fst ` set (create_indexes cols ixs) =
           fst ` set ixs \<union> {name col |col. col \<in> set cols \<and> (is_primary col \<or> is_unique col)} \<and>
         (\<forall>(c, ix) \<in> set (create_indexes cols ixs). index_is_unique ix \<and> index_map ix = Map.empty)"
  using assms
proof (induction cols arbitrary: ixs)
  case Nil
  then show ?case by simp
next
  case (Cons col cols)
  show ?case
  proof (cases "is_primary col \<or> is_unique col")
    case False
    with Cons.IH[OF Cons.prems] show ?thesis by auto
  next
    case True
    let ?ixs = "AList.update (name col) (new_Index (name col) (is_primary col \<or> is_unique col)) ixs"
    have d: "distinct (map fst ?ixs)" using Cons.prems(1) by (simp add: distinct_update)
    have e: "\<forall>(c, ix) \<in> set ?ixs. index_is_unique ix \<and> index_map ix = Map.empty"
      using Cons.prems(2) True set_update_subset[of "name col" "new_Index (name col) (is_primary col \<or> is_unique col)" ixs]
      by (auto simp: new_Index_def)
    have k: "fst ` set ?ixs = {name col} \<union> fst ` set ixs" by (rule dom_update)
    from Cons.IH[OF d e] True show ?thesis unfolding k by auto
  qed
qed

lemma index_ok_empty: "index_is_unique ix \<Longrightarrow> index_map ix = Map.empty \<Longrightarrow> index_ok [] c ix"
  by (simp add: index_ok_def Index_search_def holders_def)

lemma create_table_inv:
  "table_inv \<lparr>schema = cols, data = Some [], indexes = create_indexes cols [], next_row_id = 1\<rparr>"
proof (rule table_invI[of _ "[]"])
  have p: "distinct (map fst (create_indexes cols [])) \<and>
         fst ` set (create_indexes cols []) =
           {name col |col. col \<in> set cols \<and> (is_primary col \<or> is_unique col)} \<and>
         (\<forall>(c, ix) \<in> set (create_indexes cols []). index_is_unique ix \<and> index_map ix = Map.empty)"
    using create_indexes_props[of "[]" cols] by simp
  let ?t = "\<lparr>schema = cols, data = Some [], indexes = create_indexes cols [], next_row_id = 1\<rparr>"
  show "data ?t = Some []" by simp
  show "rows_ok (schema ?t) []" by (simp add: rows_ok_def)
  show "\<forall>i\<in>fst ` set []. i < next_row_id ?t" by simp
  show "distinct (map fst (indexes ?t))" using p by simp
  show "fst ` set (indexes ?t) = {name col |col. col \<in> set (schema ?t) \<and> (is_primary col \<or> is_unique col)}"
    using p by simp
  show "\<forall>(c, ix)\<in>set (indexes ?t). index_ok [] c ix"
    using p index_ok_empty by auto
qed

lemma executor_inv_upd:
  "executor_inv ex \<Longrightarrow> table_inv t \<Longrightarrow> tables ex' = (tables ex)(tn \<mapsto> t) \<Longrightarrow> executor_inv ex'"
  by (simp add: executor_inv_def)

lemma execute_create_table_inv:
  assumes "executor_inv ex" "execute_create_table ex tn cds = (res, ex')"
  shows "executor_inv ex'"
proof (cases "tables ex tn \<noteq> None")
  case True
  with assms show ?thesis by (simp add: execute_create_table_def)
next
  case False
  show ?thesis
  proof (cases "create_columns cds")
    case (Inl e)
    with assms False show ?thesis by (simp add: execute_create_table_def)
  next
    case (Inr cols)
    with assms(2) False have "tables ex' = (tables ex)(tn \<mapsto>
       \<lparr>schema = cols, data = Some [], indexes = create_indexes cols [], next_row_id = 1\<rparr>)"
      by (auto simp: execute_create_table_def Let_def)
    from executor_inv_upd[OF assms(1) create_table_inv this] show ?thesis .
  qed
qed

lemma execute_insert_inv:
  assumes "executor_inv ex" "execute_insert ex tn columns vals = (res, ex')"
  shows "executor_inv ex'"
proof (cases "tables ex tn")
  case None
  with assms show ?thesis by (simp add: execute_insert_def)
next
  case (Some t)
  with assms(1) have inv: "table_inv t" by (simp add: executor_inv_def)
  obtain r t' where ir: "insert_row t columns vals = (r, t')" by (cases "insert_row t columns vals")
  from insert_row_inv[OF inv ir] have inv': "table_inv t'" .
  from assms(2) Some ir have "tables ex' = (tables ex)(tn \<mapsto> t')"
    by (cases r) (auto simp: execute_insert_def)
  from executor_inv_upd[OF assms(1) inv' this] show ?thesis .
qed

lemma execute_update_inv:
  assumes "executor_inv ex" "execute_update ex tn asg conds = (res, ex')"
  shows "executor_inv ex'"
proof (cases "tables ex tn")
  case None
  with assms show ?thesis by (simp add: execute_update_def)
next
  case (Some t)
  with assms(1) have inv: "table_inv t" by (simp add: executor_inv_def)
  then obtain rws where rws: "data t = Some rws" by (auto simp: table_inv_def)
  let ?ids = "map fst (apply_where_clause (indexes t) rws conds)"
  obtain r t' where ur: "update_rows asg ?ids t 0 = (r, t')" by (cases "update_rows asg ?ids t 0")
  from update_rows_inv[OF inv ur] have inv': "table_inv t'" .
  from assms(2) Some rws ur have "tables ex' = (tables ex)(tn \<mapsto> t')"
    by (cases r) (auto simp: execute_update_def Let_def)
  from executor_inv_upd[OF assms(1) inv' this] show ?thesis .
qed

lemma execute_delete_inv:
  assumes "executor_inv ex" "execute_delete ex tn conds = (res, ex')"
  shows "executor_inv ex'"
proof (cases "tables ex tn")
  case None
  with assms show ?thesis by (simp add: execute_delete_def)
next
  case (Some t)
  with assms(1) have inv: "table_inv t" by (simp add: executor_inv_def)
  then obtain rws where rws: "data t = Some rws" by (auto simp: table_inv_def)
  let ?ids = "map fst (apply_where_clause (indexes t) rws conds)"
  obtain r t' where ur: "delete_rows ?ids t 0 = (r, t')" by (cases "delete_rows ?ids t 0")
  from delete_rows_inv[OF inv ur] have inv': "table_inv t'" .
  from assms(2) Some rws ur have "tables ex' = (tables ex)(tn \<mapsto> t')"
    by (cases r) (auto simp: execute_delete_def Let_def)
  from executor_inv_upd[OF assms(1) inv' this] show ?thesis .
qed

lemma execute_inv: "executor_inv ex \<Longrightarrow> execute ex q = (res, ex') \<Longrightarrow> executor_inv ex'"
  by (cases q)
     (auto intro: execute_create_table_inv execute_insert_inv execute_update_inv execute_delete_inv)

lemma reachable_inv: "reachable ex \<Longrightarrow> executor_inv ex"
proof (induction rule: reachable.induct)
  case reachable_fresh
  show ?case by (simp add: executor_inv_def fresh_Executor_def)
next
  case (reachable_execute ex q res ex')
  then show ?case by (blast intro: execute_inv)
qed

subsection \<open>The check raises the first violation; a statement that passes it commits\<close>

lemma value_taken_iff:
  assumes ok: "index_ok rws c ix" and d: "distinct (map fst rws)"
  shows "value_taken rws c v excl \<longleftrightarrow>
         Index_has_value ix v \<and>
         Index_search ix v - (case excl of None \<Rightarrow> {} | Some i \<Rightarrow> {i}) \<noteq> {}"
proof -
  from ok have s: "Index_search ix v = holders rws c v" by (simp add: index_ok_def)
  have h: "Index_search ix v \<noteq> {} \<Longrightarrow> Index_has_value ix v"
    using not_has_value by blast
  have "value_taken rws c v excl \<longleftrightarrow> (\<exists>i \<in> holders rws c v. Some i \<noteq> excl)"
  proof
    assume "value_taken rws c v excl"
    then obtain i r where m: "(i, r) \<in> set rws" and p: "Some i \<noteq> excl" "row_get r c \<noteq> VNone"
      "py_eq (row_get r c) v"
      by (auto simp: value_taken_def list_ex_iff)
    from d m have "map_of rws i = Some r" by simp
    with p have "i \<in> holders rws c v" by (simp add: holders_def)
    with p(1) show "\<exists>i \<in> holders rws c v. Some i \<noteq> excl" by blast
  next
    assume "\<exists>i \<in> holders rws c v. Some i \<noteq> excl"
    then obtain i r where "map_of rws i = Some r" "row_get r c \<noteq> VNone" "py_eq (row_get r c) v"
      "Some i \<noteq> excl" by (auto simp: holders_def)
    moreover from this have "(i, r) \<in> set rws" by (auto dest: map_of_SomeD)
    ultimately show "value_taken rws c v excl"
      by (auto simp: value_taken_def list_ex_iff)
  qed
  also have "\<dots> \<longleftrightarrow> Index_search ix v - (case excl of None \<Rightarrow> {} | Some i \<Rightarrow> {i}) \<noteq> {}"
    unfolding s by (cases excl) auto
  finally show ?thesis using h by blast
qed

lemma check_constraints_is_first_violation:
  assumes keys: "fst ` set ixs = {name col |col. col \<in> set schema_cols \<and> (is_primary col \<or> is_unique col)}"
    and di: "distinct (map fst ixs)"
    and ok: "\<forall>(c, ix) \<in> set ixs. index_ok rws c ix"
    and d: "distinct (map fst rws)"
    and sub: "set cols \<subseteq> set schema_cols"
  shows "check_constraints ixs r excl cols = first_violation rws r excl cols"
  using sub
proof (induction cols)
  case Nil
  show ?case by simp
next
  case (Cons col cols)
  then have ih: "check_constraints ixs r excl cols = first_violation rws r excl cols" by simp
  let ?v = "row_get r (name col)"
  show ?case
  proof (cases "(is_primary col \<or> is_unique col) \<and> ?v \<noteq> VNone")
    case False
    with ih show ?thesis by (auto simp: Let_def)
  next
    case True
    with Cons.prems keys have "name col \<in> fst ` set ixs" by auto
    then obtain ix where mem: "(name col, ix) \<in> set ixs" by auto
    with di have m: "map_of ixs (name col) = Some ix" by simp
    from ok mem have iok: "index_ok rws (name col) ix" by auto
    from value_taken_iff[OF iok d, of ?v excl] True m ih show ?thesis
      by (auto simp: Let_def)
  qed
qed

lemma table_inv_check:
  assumes inv: "table_inv t" and data: "data t = Some rws"
  shows "check_constraints (indexes t) r excl (schema t) = first_violation rws r excl (schema t)"
proof -
  from inv obtain rws' where rws: "data t = Some rws'" "rows_ok (schema t) rws'"
    "\<forall>i \<in> fst ` set rws'. i < next_row_id t" "distinct (map fst (indexes t))"
    "fst ` set (indexes t) = {name col |col. col \<in> set (schema t) \<and> (is_primary col \<or> is_unique col)}"
    "\<forall>(c, ix) \<in> set (indexes t). index_ok rws' c ix"
    by (rule table_invE)
  from rws(1) data have e: "rws' = rws" by simp
  from rws(2) e have d: "distinct (map fst rws)" by (simp add: rows_ok_def)
  show ?thesis
    by (rule check_constraints_is_first_violation[OF rws(5) rws(4) rws(6)[unfolded e] d subset_refl])
qed

lemma insert_row_commits:
  assumes inv: "table_inv t" and data: "data t = Some rws"
    and len: "length (case columns of None \<Rightarrow> map name (schema t) | Some [] \<Rightarrow> map name (schema t)
               | Some cs \<Rightarrow> cs) = length vals"
    and asg: "assign_validated (schema t)
         (zip (case columns of None \<Rightarrow> map name (schema t) | Some [] \<Rightarrow> map name (schema t)
               | Some cs \<Rightarrow> cs) vals) [] = Inr rd"
    and cc: "check_constraints (indexes t) (fill_missing (schema t) rd) None (schema t) = None"
  shows "insert_row t columns vals =
           (Inr (next_row_id t),
            t\<lparr>data := Some (AList.update (next_row_id t) (fill_missing (schema t) rd) rws),
              indexes := map (\<lambda>(c, ix). (c, snd (Index_insert ix
                             (row_get (fill_missing (schema t) rd) c) (next_row_id t)))) (indexes t),
              next_row_id := next_row_id t + 1\<rparr>)"
proof -
  from inv obtain rws' where rws: "data t = Some rws'" "rows_ok (schema t) rws'"
    "\<forall>i \<in> fst ` set rws'. i < next_row_id t" "distinct (map fst (indexes t))"
    "fst ` set (indexes t) = {name col |col. col \<in> set (schema t) \<and> (is_primary col \<or> is_unique col)}"
    "\<forall>(c, ix) \<in> set (indexes t). index_ok rws' c ix"
    by (rule table_invE)
  let ?row = "fill_missing (schema t) rd"
  have free: "\<forall>(c, ix) \<in> set (indexes t). row_get ?row c = VNone \<or> Index_search ix (row_get ?row c) = {}"
    using constraints_free[OF cc rws(5) rws(4)] by auto
  from insert_indexes_all[OF free, of "next_row_id t"] data len asg cc
  show ?thesis by (simp add: insert_row_def Let_def)
qed

lemma update_one_commits:
  assumes inv: "table_inv t" and data: "data t = Some rws" and row: "map_of rws i = Some r"
    and asg: "assign_validated (schema t) assignments r = Inr r'"
    and cc: "check_constraints (indexes t) r' (Some i) (schema t) = None"
  shows "update_one assignments i t =
           (None, t\<lparr>data := Some (AList.update i r' rws),
                    indexes := map (\<lambda>(c, ix). (c, if py_eq (row_get r c) (row_get r' c) then ix
                        else snd (Index_update ix (row_get r c) (row_get r' c) i))) (indexes t)\<rparr>)"
proof -
  from inv obtain rws' where rws: "data t = Some rws'" "rows_ok (schema t) rws'"
    "\<forall>i \<in> fst ` set rws'. i < next_row_id t" "distinct (map fst (indexes t))"
    "fst ` set (indexes t) = {name col |col. col \<in> set (schema t) \<and> (is_primary col \<or> is_unique col)}"
    "\<forall>(c, ix) \<in> set (indexes t). index_ok rws' c ix"
    by (rule table_invE)
  from rws(1) data have e: "rws' = rws" by simp
  have d: "distinct (map fst rws)" using rws(2) e by (simp add: rows_ok_def)
  have mem: "(i, r) \<in> set rws" using row by (rule map_of_SomeD)
  have nfr: "\<forall>(k, v) \<in> set r. \<not> is_float v" using rws(2) e mem by (auto simp: rows_ok_def)
  have nfr': "\<forall>(k, v) \<in> set r'. \<not> is_float v" by (rule assign_validated_not_float[OF asg nfr])
  have each: "py_eq (row_get r c) (row_get r' c) \<or> fst (Index_update ix (row_get r c) (row_get r' c) i)"
    if m: "(c, ix) \<in> set (indexes t)" for c ix
  proof -
    from rws(6) m e have ok: "index_ok rws c ix" by auto
    from constraints_free[OF cc rws(5) rws(4) m]
    have fr: "row_get r' c = VNone \<or> Index_search ix (row_get r' c) - {i} = {}" by simp
    show ?thesis
    proof (cases "py_eq (row_get r c) (row_get r' c)")
      case True
      then show ?thesis by simp
    next
      case False
      from index_ok_update_changed(1)[OF ok d row False fr
           row_get_not_float[OF nfr] row_get_not_float[OF nfr']]
      show ?thesis by simp
    qed
  qed
  have "update_indexes r r' i (indexes t) =
     (map (\<lambda>(c, ix). (c, if py_eq (row_get r c) (row_get r' c) then ix
                        else snd (Index_update ix (row_get r c) (row_get r' c) i))) (indexes t), None)"
    by (rule update_indexes_all) (use each in auto)
  with data row asg cc show ?thesis by (simp add: update_one_def)
qed

lemma first_violation_append:
  "first_violation rws r excl (pre @ rest) =
     (case first_violation rws r excl pre of Some e \<Rightarrow> Some e | None \<Rightarrow> first_violation rws r excl rest)"
  by (induction pre) auto

lemma first_violation_null_primary:
  "col \<in> set cols \<Longrightarrow> is_primary col \<Longrightarrow> row_get r (name col) = VNone \<Longrightarrow>
   \<exists>e. first_violation rws r excl cols = Some e"
  by (induction cols) auto

section \<open>Uniqueness (C2)\<close>

lemmas exec_defs =
  fresh_Executor_def empty_Storage_def
  execute_create_table_def execute_insert_def insert_row_def create_column_def DataType_of_def
  new_Index_def Let_def validate_value_def Index_insert_def Index_has_value_def Index_search_def
  Index_delete_def Index_update_def
  row_get_def save_table_data_def save_table_schema_def schema_entry_def
  execute_update_def update_one_def execute_delete_def delete_one_def
  apply_where_clause_def full_scan_def index_lookup_def cond_holds_def py_eq_def
  execute_select_def execute_join_def join_index_def join_nested_def merge_rows_def prefixed_def

lemma users_db_table: "tables users_db ''users'' = Some users_table"
  by (simp add: users_db_def users_statements_def users_columns_def users_table_def users_rows_def
      exec_defs numeral_2_eq_2 numeral_3_eq_3 eval_nat_numeral)

lemma reachable_run: "reachable ex \<Longrightarrow> reachable (snd (run ex qs))"
proof (induction qs arbitrary: ex)
  case Nil
  then show ?case by simp
next
  case (Cons q qs)
  obtain res ex' where e: "execute ex q = (res, ex')" by (cases "execute ex q")
  from reachable_execute[OF Cons.prems e] have "reachable ex'" .
  from Cons.IH[OF this] e show ?case by (auto split: prod.splits)
qed

lemma users_db_reachable: "reachable users_db"
  unfolding users_db_def by (rule reachable_run[OF reachable_fresh])


lemma dkey_surj: "\<exists>w. dkey w = k"
proof (cases k)
  case KNone
  then show ?thesis by (intro exI[of _ VNone]) simp
next
  case (KNum r)
  then show ?thesis by (intro exI[of _ "VFloat (FFin r)"]) simp
next
  case (KInf s)
  then show ?thesis by (intro exI[of _ "VFloat (FInf s)"]) simp
next
  case KNan
  then show ?thesis by (intro exI[of _ "VFloat FNan"]) simp
next
  case (KStr s)
  then show ?thesis by (intro exI[of _ "VStr s"]) simp
qed

lemma table_inv_unique_column:
  assumes inv: "table_inv t" and col: "col \<in> set (schema t)" "is_unique col \<or> is_primary col"
  shows "\<exists>rws ix. data t = Some rws \<and> map_of (indexes t) (name col) = Some ix \<and>
           (\<forall>i j r r'. map_of rws i = Some r \<and> map_of rws j = Some r' \<and>
                row_get r (name col) \<noteq> VNone \<and>
                py_eq (row_get r (name col)) (row_get r' (name col)) \<longrightarrow> i = j) \<and>
           (\<forall>k s. index_map ix k = Some s \<longrightarrow> (\<forall>i \<in> s. \<forall>j \<in> s. i = j))"
proof -
  from inv obtain rws where rws: "data t = Some rws" "rows_ok (schema t) rws"
    "\<forall>i \<in> fst ` set rws. i < next_row_id t" "distinct (map fst (indexes t))"
    "fst ` set (indexes t) = {name col |col. col \<in> set (schema t) \<and> (is_primary col \<or> is_unique col)}"
    "\<forall>(c, ix) \<in> set (indexes t). index_ok rws c ix"
    by (rule table_invE)
  from col rws(5) have "name col \<in> fst ` set (indexes t)" by auto
  then obtain ix where mem: "(name col, ix) \<in> set (indexes t)" by auto
  with rws(4) have m: "map_of (indexes t) (name col) = Some ix" by simp
  from rws(6) mem have ok: "index_ok rws (name col) ix" by auto
  have a: "i = j" if h: "map_of rws i = Some r" "map_of rws j = Some r'"
      "row_get r (name col) \<noteq> VNone" "py_eq (row_get r (name col)) (row_get r' (name col))"
    for i j r r'
  proof -
    let ?w = "row_get r (name col)"
    from h(4) have k: "dkey ?w = dkey (row_get r' (name col))" "dkey ?w \<noteq> KNan"
      by (auto simp: py_eq_def)
    have "i \<in> holders rws (name col) ?w" using h(1,3) k by (auto simp: holders_def py_eq_def)
    moreover have "row_get r' (name col) \<noteq> VNone" using k(1) h(3) dkey_None_iff by metis
    then have "j \<in> holders rws (name col) ?w" using h(2) k by (auto simp: holders_def py_eq_def)
    ultimately show "i = j" using ok by (auto simp: index_ok_def)
  qed
  have b: "\<forall>i \<in> s. \<forall>j \<in> s. i = j" if h: "index_map ix k = Some s" for k s
  proof -
    from dkey_surj obtain w where "dkey w = k" by blast
    with h have "Index_search ix w = s" by (simp add: Index_search_def)
    with ok show ?thesis by (auto simp: index_ok_def)
  qed
  from rws(1) m a b show ?thesis by blast
qed

text \<open>
  C2. In every state the executor reaches by executing statements, for every table and
  every column of it marked unique or primary: the column has an index; no two distinct
  row-ids of the table hold equal (\<^verbatim>\<open>==\<close>) non-null values in the column; and the
  index maps no value to more than one row-id.
\<close>

theorem unique_columns_stay_unique:
  assumes "reachable ex" and "tables ex tn = Some t"
    and "col \<in> set (schema t)" and "is_unique col \<or> is_primary col"
  shows "\<exists>rws ix. data t = Some rws \<and> map_of (indexes t) (name col) = Some ix \<and>
           (\<forall>i j r r'. map_of rws i = Some r \<and> map_of rws j = Some r' \<and>
                row_get r (name col) \<noteq> VNone \<and>
                py_eq (row_get r (name col)) (row_get r' (name col)) \<longrightarrow> i = j) \<and>
           (\<forall>k s. index_map ix k = Some s \<longrightarrow> (\<forall>i \<in> s. \<forall>j \<in> s. i = j))"
proof -
  from reachable_inv[OF assms(1)] assms(2) have "table_inv t" by (simp add: executor_inv_def)
  from table_inv_unique_column[OF this assms(3,4)] show ?thesis .
qed

theorem unique_columns_stay_unique_witness:
  "reachable users_db \<and> tables users_db ''users'' = Some users_table \<and>
   \<lparr>name = ''email'', dtype = DT_TEXT, is_primary = False, is_unique = True\<rparr> \<in> set (schema users_table) \<and>
   is_unique \<lparr>name = ''email'', dtype = DT_TEXT, is_primary = False, is_unique = True\<rparr> \<and>
   (\<exists>rws ix. data users_table = Some rws \<and> map_of (indexes users_table) ''email'' = Some ix \<and>
      (\<forall>i j r r'. map_of rws i = Some r \<and> map_of rws j = Some r' \<and>
           row_get r ''email'' \<noteq> VNone \<and> py_eq (row_get r ''email'') (row_get r' ''email'') \<longrightarrow> i = j) \<and>
      (\<forall>k s. index_map ix k = Some s \<longrightarrow> (\<forall>i \<in> s. \<forall>j \<in> s. i = j)))"
proof -
  let ?col = "\<lparr>name = ''email'', dtype = DT_TEXT, is_primary = False, is_unique = True\<rparr>"
  have m: "?col \<in> set (schema users_table)" by (simp add: users_table_def)
  have u: "is_unique ?col \<or> is_primary ?col" by simp
  from unique_columns_stay_unique[OF users_db_reachable users_db_table m u]
  show ?thesis using users_db_reachable users_db_table m by simp
qed

section \<open>Helper facts on rows and on the errors of the check\<close>


lemma check_constraints_errors:
  "check_constraints ixs r excl cols = Some e \<Longrightarrow>
   (\<exists>col \<in> set cols. is_primary col \<and> row_get r (name col) = VNone \<and> e = NullPrimaryKey (name col)) \<or>
   (\<exists>col \<in> set cols. (is_primary col \<or> is_unique col) \<and> row_get r (name col) \<noteq> VNone \<and>
       e = DuplicateValue (name col) (row_get r (name col))) \<or>
   (\<exists>col \<in> set cols. (is_primary col \<or> is_unique col) \<and> map_of ixs (name col) = None \<and>
       e = KeyError (name col))"
proof (induction cols)
  case Nil
  then show ?case by simp
next
  case (Cons col cols)
  show ?case
  proof (cases "check_constraints ixs r excl cols = Some e")
    case True
    from Cons.IH[OF True] show ?thesis by auto
  next
    case False
    with Cons.prems show ?thesis
      by (auto simp: Let_def split: if_splits option.splits)
  qed
qed




section \<open>What the parser does with PRIMARY KEY and with malformed WHERE terms (C1, C9)\<close>

lemma is_space_blank: "is_space CHR '' ''"
  by (simp add: is_space_def)

lemma upper_char_space: "is_space (upper_char c) \<Longrightarrow> is_space c"
  by (auto simp: upper_char_def is_space_def Let_def split: if_splits)

lemma split_ws_no_space:
  "\<forall>ch \<in> set current. \<not> is_space ch \<Longrightarrow> tok \<in> set (split_ws s current) \<Longrightarrow> ch \<in> set tok
   \<Longrightarrow> \<not> is_space ch"
proof (induction s current rule: split_ws.induct)
  case (1 current)
  then show ?case by (auto split: if_splits)
next
  case (2 c cs current)
  then show ?case by (auto split: if_splits)
qed

lemma parse_column_def_no_primary:
  assumes "parse_column_def piece = Inr (Some cd)"
  shows "''PRIMARY KEY'' \<notin> set (cd_constraints cd)"
proof
  assume m: "''PRIMARY KEY'' \<in> set (cd_constraints cd)"
  from assms obtain col_name col_type rest where
    sp: "split_ws (strip piece) [] = col_name # col_type # rest" and
    cd: "cd_constraints cd = map upper rest"
    by (auto simp: parse_column_def_def Let_def split: if_splits list.splits)
  from m cd obtain tok where tok: "tok \<in> set rest" "upper tok = ''PRIMARY KEY''" by auto
  from tok(2) have "CHR '' '' \<in> set (upper tok)" by simp
  then obtain ch where ch: "ch \<in> set tok" "upper_char ch = CHR '' ''" by (auto simp: upper_def)
  from ch(2) is_space_blank have "is_space (upper_char ch)" by simp
  then have "is_space ch" by (rule upper_char_space)
  moreover from tok(1) sp have "tok \<in> set (split_ws (strip piece) [])" by simp
  then have "\<not> is_space ch" using split_ws_no_space[of "[]" tok "strip piece" ch] ch(1) by simp
  ultimately show False by simp
qed

lemma parse_column_defs_no_primary:
  "parse_column_defs pieces = Inr cds \<Longrightarrow> cd \<in> set cds \<Longrightarrow> ''PRIMARY KEY'' \<notin> set (cd_constraints cd)"
proof (induction pieces arbitrary: cds)
  case Nil
  then show ?case by simp
next
  case (Cons piece pieces)
  then show ?case
    by (auto split: sum.splits option.splits dest: parse_column_def_no_primary)
qed

lemma parsed_columns_never_primary:
  assumes "parse_create_table q = Inr (CREATE_TABLE tn cds)" and "cd \<in> set cds"
    and "create_column cd = Inr col"
  shows "\<not> is_primary col"
proof -
  from assms(1) obtain columns_str where "parse_column_defs (split_by_commas columns_str) = Inr cds"
    by (auto simp: parse_create_table_def split: option.splits sum.splits)
  from parse_column_defs_no_primary[OF this assms(2)] assms(3) show ?thesis
    by (auto simp: create_column_def split: option.splits)
qed

text \<open>
  C1. The claim: a column declared with \<^verbatim>\<open>PRIMARY KEY\<close> in a CREATE TABLE statement is marked
  primary, and it is marked unique iff its tokens contain \<^verbatim>\<open>UNIQUE\<close> or it is primary.
  The parser splits a column definition at white space, so the declaration arrives as
  the two tokens \<^verbatim>\<open>PRIMARY\<close> and \<^verbatim>\<open>KEY\<close>, and the executor looks for the single list element
  \<^verbatim>\<open>PRIMARY KEY\<close>: the column \<^verbatim>\<open>id INT PRIMARY KEY\<close> comes out neither primary nor unique.
\<close>

theorem primary_key_declaration_is_lost:
  "parse_create_table ''CREATE TABLE users (id INT PRIMARY KEY, email TEXT UNIQUE)'' =
     Inr (CREATE_TABLE ''users''
       [\<lparr>cd_name = ''id'', cd_type = ''INT'', cd_constraints = [''PRIMARY'', ''KEY'']\<rparr>,
        \<lparr>cd_name = ''email'', cd_type = ''TEXT'', cd_constraints = [''UNIQUE'']\<rparr>]) \<and>
   create_columns
       [\<lparr>cd_name = ''id'', cd_type = ''INT'', cd_constraints = [''PRIMARY'', ''KEY'']\<rparr>,
        \<lparr>cd_name = ''email'', cd_type = ''TEXT'', cd_constraints = [''UNIQUE'']\<rparr>] =
     Inr [\<lparr>name = ''id'', dtype = DT_INT, is_primary = False, is_unique = False\<rparr>,
          \<lparr>name = ''email'', dtype = DT_TEXT, is_primary = False, is_unique = True\<rparr>]"
proof
  show "parse_create_table ''CREATE TABLE users (id INT PRIMARY KEY, email TEXT UNIQUE)'' =
     Inr (CREATE_TABLE ''users''
       [\<lparr>cd_name = ''id'', cd_type = ''INT'', cd_constraints = [''PRIMARY'', ''KEY'']\<rparr>,
        \<lparr>cd_name = ''email'', cd_type = ''TEXT'', cd_constraints = [''UNIQUE'']\<rparr>])"
    by code_simp
  show "create_columns
       [\<lparr>cd_name = ''id'', cd_type = ''INT'', cd_constraints = [''PRIMARY'', ''KEY'']\<rparr>,
        \<lparr>cd_name = ''email'', cd_type = ''TEXT'', cd_constraints = [''UNIQUE'']\<rparr>] =
     Inr [\<lparr>name = ''id'', dtype = DT_INT, is_primary = False, is_unique = False\<rparr>,
          \<lparr>name = ''email'', dtype = DT_TEXT, is_primary = False, is_unique = True\<rparr>]"
    by (simp add: create_column_def DataType_of_def)
qed

text \<open>The part of C1 that holds: loading marks a stored column as creating it did, and
  unique means \<^verbatim>\<open>UNIQUE\<close> or \<^verbatim>\<open>PRIMARY KEY\<close> among the list elements.\<close>

lemma load_column_eq_create_column: "load_column cd = create_column cd"
  by (simp add: load_column_def create_column_def)

lemma create_column_marks:
  "create_column cd = Inr col \<Longrightarrow>
   (is_primary col \<longleftrightarrow> ''PRIMARY KEY'' \<in> set (cd_constraints cd)) \<and>
   (is_unique col \<longleftrightarrow> ''UNIQUE'' \<in> set (cd_constraints cd) \<or> is_primary col)"
  by (auto simp: create_column_def split: option.splits)

lemma schema_entry_roundtrip:
  "create_column cd = Inr col \<Longrightarrow> load_column (schema_entry cd col) = Inr col"
  by (auto simp: create_column_def load_column_def schema_entry_def DataType_of_def
           split: option.splits if_splits)

lemma term_without_equals_is_dropped:
  "CHR ''='' \<notin> set cond \<Longrightarrow> parse_condition float_of cond = None"
proof -
  assume n: "CHR ''='' \<notin> set cond"
  have a: "find_sub ''='' s = None" if "CHR ''='' \<notin> set s" for s
    using that by (induction s) auto
  have b: "find_sub ''!='' s = None" if "CHR ''='' \<notin> set s" for s
    using that
  proof (induction s)
    case Nil
    then show ?case by simp
  next
    case (Cons c s)
    then have "take 2 (c # s) \<noteq> ''!=''" by (cases s) auto
    with Cons show ?case by simp
  qed
  from a[OF n] b[OF n] show ?thesis by (simp add: parse_condition_def)
qed

text \<open>
  C9. The claim: a WHERE term that is neither \<^verbatim>\<open>column = value\<close> nor \<^verbatim>\<open>column != value\<close>
  makes parsing fail with a syntax error. The parser adds no condition for such a term
  and raises nothing: \<^verbatim>\<open>DELETE FROM users WHERE id > 1\<close> parses to a DELETE with an empty
  condition list, and executing it on the three-row table removes all three rows.
\<close>

theorem malformed_where_term_is_ignored:
  "parse_delete float_of ''DELETE FROM users WHERE id > 1'' = Inr (DELETE ''users'' (Some [])) \<and>
   fst (execute users_db (DELETE ''users'' (Some []))) = Inr (Deleted 3) \<and>
   map_option data (tables (snd (execute users_db (DELETE ''users'' (Some [])))) ''users'')
     = Some (Some [])"
proof (intro conjI)
  show "parse_delete float_of ''DELETE FROM users WHERE id > 1'' = Inr (DELETE ''users'' (Some []))"
    by code_simp
  show "fst (execute users_db (DELETE ''users'' (Some []))) = Inr (Deleted 3)"
    by (simp add: users_db_table exec_defs users_table_def users_rows_def)
  show "map_option data (tables (snd (execute users_db (DELETE ''users'' (Some [])))) ''users'')
     = Some (Some [])"
    by (simp add: users_db_table exec_defs users_table_def users_rows_def)
qed

section \<open>Row-ids (C3)\<close>

lemma insert_row_next_id:
  "insert_row t columns vals = (res, t') \<Longrightarrow>
   (case res of Inl e \<Rightarrow> next_row_id t' = next_row_id t
    | Inr i \<Rightarrow> i = next_row_id t \<and> next_row_id t' = Suc i)"
  by (auto simp: insert_row_def Let_def split: option.splits if_splits sum.splits prod.splits)

lemma update_one_next_id: "update_one asg i t = (res, t') \<Longrightarrow> next_row_id t' = next_row_id t"
  by (auto simp: update_one_def split: option.splits sum.splits prod.splits)

lemma update_rows_next_id: "update_rows asg ids t n = (res, t') \<Longrightarrow> next_row_id t' = next_row_id t"
proof (induction ids arbitrary: t n)
  case Nil
  then show ?case by simp
next
  case (Cons i ids)
  obtain e t1 where u: "update_one asg i t = (e, t1)" by (cases "update_one asg i t")
  with Cons show ?case
    by (cases e) (auto dest: update_one_next_id)
qed

lemma delete_one_next_id: "delete_one i t = (res, t') \<Longrightarrow> next_row_id t' = next_row_id t"
  by (auto simp: delete_one_def split: option.splits)

lemma delete_rows_next_id: "delete_rows ids t n = (res, t') \<Longrightarrow> next_row_id t' = next_row_id t"
proof (induction ids arbitrary: t n)
  case Nil
  then show ?case by simp
next
  case (Cons i ids)
  obtain e t1 where u: "delete_one i t = (e, t1)" by (cases "delete_one i t")
  with Cons show ?case
    by (cases e) (auto dest: delete_one_next_id)
qed

lemma next_id_of_same:
  assumes "tables ex' = (tables ex)(tn' \<mapsto> t')" "tables ex tn' = Some t"
    "next_row_id t' = next_row_id t"
  shows "next_id_of ex' tn = next_id_of ex tn"
  using assms by (cases "tn = tn'") (simp_all add: next_id_of_def)

lemma execute_insert_next_id:
  assumes "execute_insert ex tn' columns vals = (res, ex')"
  shows "(\<exists>i. res = Inr (Inserted i) \<and> i = next_id_of ex tn' \<and> next_id_of ex' tn' = Suc i \<and>
               (\<forall>tn. tn \<noteq> tn' \<longrightarrow> next_id_of ex' tn = next_id_of ex tn)) \<or>
         ((\<exists>e. res = Inl e) \<and> (\<forall>tn. next_id_of ex' tn = next_id_of ex tn))"
proof (cases "tables ex tn'")
  case None
  with assms show ?thesis by (auto simp: execute_insert_def)
next
  case (Some t)
  obtain r t' where ir: "insert_row t columns vals = (r, t')" by (cases "insert_row t columns vals")
  show ?thesis
  proof (cases r)
    case (Inl e)
    with assms Some ir have res: "res = Inl e" and tb: "tables ex' = (tables ex)(tn' \<mapsto> t')"
      by (auto simp: execute_insert_def)
    from insert_row_next_id[OF ir] Inl have "next_row_id t' = next_row_id t" by simp
    from next_id_of_same[OF tb Some this] res show ?thesis by blast
  next
    case (Inr i)
    with assms Some ir have res: "res = Inr (Inserted i)" and tb: "tables ex' = (tables ex)(tn' \<mapsto> t')"
      by (auto simp: execute_insert_def)
    from insert_row_next_id[OF ir] Inr have n: "i = next_row_id t" "next_row_id t' = Suc i" by simp_all
    have "next_id_of ex tn' = i" using Some n by (simp add: next_id_of_def)
    moreover have "next_id_of ex' tn' = Suc i" using tb n by (simp add: next_id_of_def)
    moreover have "\<forall>tn. tn \<noteq> tn' \<longrightarrow> next_id_of ex' tn = next_id_of ex tn"
      using tb by (simp add: next_id_of_def)
    ultimately show ?thesis using res by blast
  qed
qed

lemma execute_update_next_id:
  assumes "execute_update ex tn' asg conds = (res, ex')"
  shows "next_id_of ex' tn = next_id_of ex tn \<and> (\<forall>i. res \<noteq> Inr (Inserted i))"
proof (cases "tables ex tn'")
  case None
  with assms show ?thesis by (auto simp: execute_update_def)
next
  case (Some t)
  show ?thesis
  proof (cases "data t")
    case None
    with assms Some show ?thesis by (auto simp: execute_update_def)
  next
    case (Some rws)
    let ?ids = "map fst (apply_where_clause (indexes t) rws conds)"
    obtain r t' where ur: "update_rows asg ?ids t 0 = (r, t')" by (cases "update_rows asg ?ids t 0")
    from assms \<open>tables ex tn' = Some t\<close> Some ur
    have tb: "tables ex' = (tables ex)(tn' \<mapsto> t')" and res: "\<forall>i. res \<noteq> Inr (Inserted i)"
      by (cases r; auto simp: execute_update_def Let_def)+
    from next_id_of_same[OF tb \<open>tables ex tn' = Some t\<close> update_rows_next_id[OF ur]] res
    show ?thesis by simp
  qed
qed

lemma execute_delete_next_id:
  assumes "execute_delete ex tn' conds = (res, ex')"
  shows "next_id_of ex' tn = next_id_of ex tn \<and> (\<forall>i. res \<noteq> Inr (Inserted i))"
proof (cases "tables ex tn'")
  case None
  with assms show ?thesis by (auto simp: execute_delete_def)
next
  case (Some t)
  show ?thesis
  proof (cases "data t")
    case None
    with assms Some show ?thesis by (auto simp: execute_delete_def)
  next
    case (Some rws)
    let ?ids = "map fst (apply_where_clause (indexes t) rws conds)"
    obtain r t' where ur: "delete_rows ?ids t 0 = (r, t')" by (cases "delete_rows ?ids t 0")
    from assms \<open>tables ex tn' = Some t\<close> Some ur
    have tb: "tables ex' = (tables ex)(tn' \<mapsto> t')" and res: "\<forall>i. res \<noteq> Inr (Inserted i)"
      by (cases r; auto simp: execute_delete_def Let_def)+
    from next_id_of_same[OF tb \<open>tables ex tn' = Some t\<close> delete_rows_next_id[OF ur]] res
    show ?thesis by simp
  qed
qed

lemma execute_other_next_id:
  assumes "execute ex q = (res, ex')" and "\<forall>tn' columns vals. q \<noteq> INSERT tn' columns vals"
  shows "next_id_of ex' tn = next_id_of ex tn \<and> (\<forall>i. res \<noteq> Inr (Inserted i))"
proof (cases q)
  case (CREATE_TABLE tn' cds)
  with assms(1) show ?thesis
    by (auto simp: execute_create_table_def next_id_of_def Let_def split: if_splits sum.splits)
next
  case (INSERT tn' columns vals)
  with assms(2) show ?thesis by simp
next
  case (SELECT tn' columns conds j)
  with assms(1) show ?thesis
    by (auto simp: execute_select_def Let_def split: option.splits sum.splits)
next
  case (UPDATE tn' asg conds)
  with assms(1) execute_update_next_id show ?thesis by simp
next
  case (DELETE tn' conds)
  with assms(1) execute_delete_next_id show ?thesis by simp
qed

lemma run_insert_ids:
  "insert_ids tn qs (fst (run ex qs)) = [next_id_of ex tn ..< next_id_of (snd (run ex qs)) tn] \<and>
   next_id_of ex tn \<le> next_id_of (snd (run ex qs)) tn"
proof (induction qs arbitrary: ex)
  case Nil
  show ?case by simp
next
  case (Cons q qs)
  obtain res ex' where e: "execute ex q = (res, ex')" by (cases "execute ex q")
  obtain rs ex'' where r: "run ex' qs = (rs, ex'')" by (cases "run ex' qs")
  from Cons.IH[of ex'] r
  have ih: "insert_ids tn qs rs = [next_id_of ex' tn ..< next_id_of ex'' tn]"
    "next_id_of ex' tn \<le> next_id_of ex'' tn" by simp_all
  have run: "run ex (q # qs) = (res # rs, ex'')" using e r by simp
  show ?case
  proof (cases "\<exists>tn' columns vals. q = INSERT tn' columns vals")
    case False
    then have no: "\<forall>tn' columns vals. q \<noteq> INSERT tn' columns vals" by simp
    from execute_other_next_id[OF e no, of tn]
    have same: "next_id_of ex' tn = next_id_of ex tn" and ni: "\<forall>i. res \<noteq> Inr (Inserted i)" by simp_all
    have "insert_ids tn (q # qs) (res # rs) = insert_ids tn qs rs"
      using no ni by (cases q; cases res) (auto elim: insert_ids.elims)
    with ih same run show ?thesis by simp
  next
    case True
    then obtain tn' columns vals where q: "q = INSERT tn' columns vals" by blast
    with e have ei: "execute_insert ex tn' columns vals = (res, ex')" by simp
    from execute_insert_next_id[OF ei] consider
      (ok) i where "res = Inr (Inserted i)" "i = next_id_of ex tn'" "next_id_of ex' tn' = Suc i"
        "\<forall>tn. tn \<noteq> tn' \<longrightarrow> next_id_of ex' tn = next_id_of ex tn"
      | (fail) e where "res = Inl e" "\<forall>tn. next_id_of ex' tn = next_id_of ex tn"
      by blast
    then show ?thesis
    proof cases
      case ok
      show ?thesis
      proof (cases "tn' = tn")
        case True
        with ok q have "insert_ids tn (q # qs) (res # rs) = next_id_of ex tn # insert_ids tn qs rs"
          by simp
        moreover from ok True have "next_id_of ex' tn = Suc (next_id_of ex tn)" by simp
        ultimately show ?thesis using ih run by (simp add: upt_conv_Cons)
      next
        case False
        with ok q have "insert_ids tn (q # qs) (res # rs) = insert_ids tn qs rs" by simp
        moreover from ok False have "next_id_of ex' tn = next_id_of ex tn" by simp
        ultimately show ?thesis using ih run by simp
      qed
    next
      case fail
      with q have "insert_ids tn (q # qs) (res # rs) = insert_ids tn qs rs" by simp
      with fail ih run show ?thesis by simp
    qed
  qed
qed

lemma replay_rows_next_id:
  "replay_rows rws columns n ixs = (n', ixs') \<Longrightarrow>
   n \<le> n' \<and> (\<forall>i \<in> fst ` set rws. i < n') \<and> (n' = n \<or> (\<exists>i \<in> fst ` set rws. n' = Suc i))"
proof (induction rws arbitrary: n ixs)
  case Nil
  then show ?case by simp
next
  case (Cons p rws)
  obtain i r where p: "p = (i, r)" by (cases p)
  from Cons.prems p have "replay_rows rws columns (max n (i + 1)) (replay_row r i columns ixs) = (n', ixs')"
    by simp
  from Cons.IH[OF this] p show ?case by (auto simp: max_def split: if_splits)
qed


lemma load_tables_result:
  "load_tables st tns tbls = Inr tbls' \<Longrightarrow> tbls' tn = Some t \<Longrightarrow>
   tbls tn = Some t \<or> load_table st tn = Inr (Some t)"
proof (induction tns arbitrary: tbls)
  case Nil
  then show ?case by simp
next
  case (Cons n tns)
  show ?case
  proof (cases "load_table st n")
    case (Inl e)
    with Cons.prems show ?thesis by simp
  next
    case (Inr ot)
    show ?thesis
    proof (cases ot)
      case None
      with Inr Cons show ?thesis by simp
    next
      case (Some t1)
      with Inr Cons.prems have "load_tables st tns (tbls(n \<mapsto> t1)) = Inr tbls'" by simp
      from Cons.IH[OF this Cons.prems(2)] Inr Some show ?thesis
        by (auto split: if_splits)
    qed
  qed
qed

lemma load_table_next_id:
  assumes "load_table st tn = Inr (Some t)"
  shows "(\<forall>i \<in> fst ` set (case data t of None \<Rightarrow> [] | Some rws \<Rightarrow> rws). i < next_row_id t) \<and>
         (next_row_id t = 1 \<or>
          (\<exists>i \<in> fst ` set (case data t of None \<Rightarrow> [] | Some rws \<Rightarrow> rws). next_row_id t = Suc i))"
proof -
  from assms obtain columns ixs n' ixs' where
    r: "replay_rows (case data t of None \<Rightarrow> [] | Some rws \<Rightarrow> rws) columns 1 ixs = (n', ixs')"
    and n: "next_row_id t = n'"
    by (auto simp: load_table_def Let_def split: option.splits list.splits sum.splits prod.splits)
  from replay_rows_next_id[OF r] n show ?thesis by auto
qed

lemma ids_run:
  "fst (run fresh_Executor ids_statements) =
     [Inr (Created ''t''), Inr (Inserted 1), Inr (Inserted 2), Inr (Deleted 1)]"
  by (simp add: ids_statements_def exec_defs)

lemma ids_restart: "new_Executor (storage (snd (run fresh_Executor ids_statements))) = Inr ids_reloaded"
  by (simp add: ids_reloaded_def ids_statements_def exec_defs new_Executor_def list_tables_def
        load_table_def load_column_def numeral_2_eq_2)

text \<open>
  C3, as the code has it. Whatever executor the statements start from, the successful
  INSERTs into a table are given consecutive row-ids in order, beginning with the
  table's counter: strictly increasing and never assigned twice, whatever deletions,
  updates and failed statements come between. The counter is 1 for a table created by a
  fresh executor. An executor constructed from storage sets the counter of each table it
  loads above every stored row-id: to 1 when no row is stored, else to one more than a
  stored row-id (the largest).
\<close>

theorem row_ids_sequential_per_executor:
  "insert_ids tn qs (fst (run ex qs)) =
     [next_id_of ex tn ..< next_id_of ex tn + length (insert_ids tn qs (fst (run ex qs)))] \<and>
   next_id_of fresh_Executor tn = 1 \<and>
   (\<forall>st ex' t. new_Executor st = Inr ex' \<and> tables ex' tn = Some t \<longrightarrow>
      (\<forall>i \<in> fst ` set (case data t of None \<Rightarrow> [] | Some rws \<Rightarrow> rws). i < next_id_of ex' tn) \<and>
      (next_id_of ex' tn = 1 \<or>
       (\<exists>i \<in> fst ` set (case data t of None \<Rightarrow> [] | Some rws \<Rightarrow> rws). next_id_of ex' tn = Suc i)))"
proof (intro conjI allI impI)
  let ?ids = "insert_ids tn qs (fst (run ex qs))"
  from run_insert_ids[of tn qs ex]
  have eq: "?ids = [next_id_of ex tn ..< next_id_of (snd (run ex qs)) tn]"
    and le: "next_id_of ex tn \<le> next_id_of (snd (run ex qs)) tn" by simp_all
  from eq have "length ?ids = next_id_of (snd (run ex qs)) tn - next_id_of ex tn"
    by (metis length_upt)
  with le have "next_id_of ex tn + length ?ids = next_id_of (snd (run ex qs)) tn" by simp
  with eq show "?ids = [next_id_of ex tn ..< next_id_of ex tn + length ?ids]" by simp
  show "next_id_of fresh_Executor tn = 1" by (simp add: next_id_of_def fresh_Executor_def)
next
  fix st ex' t
  assume a: "new_Executor st = Inr ex' \<and> tables ex' tn = Some t"
  then obtain tbls where "load_tables st (list_tables st) Map.empty = Inr tbls" "tables ex' = tbls"
    by (auto simp: new_Executor_def split: sum.splits)
  with a load_tables_result[of st "list_tables st" Map.empty tbls tn t]
  have lt: "load_table st tn = Inr (Some t)" by simp
  have n: "next_id_of ex' tn = next_row_id t" using a by (simp add: next_id_of_def)
  from load_table_next_id[OF lt]
  show "\<forall>i \<in> fst ` set (case data t of None \<Rightarrow> [] | Some rws \<Rightarrow> rws). i < next_id_of ex' tn"
    and "next_id_of ex' tn = 1 \<or>
       (\<exists>i \<in> fst ` set (case data t of None \<Rightarrow> [] | Some rws \<Rightarrow> rws). next_id_of ex' tn = Suc i)"
    unfolding n by simp_all
qed

theorem row_ids_sequential_per_executor_witness:
  "new_Executor (storage (snd (run fresh_Executor ids_statements))) = Inr ids_reloaded \<and>
   tables ids_reloaded ''t'' =
     Some \<lparr>schema = [\<lparr>name = ''a'', dtype = DT_INT, is_primary = False, is_unique = False\<rparr>],
           data = Some [(1, [(''a'', VInt 10)])], indexes = [], next_row_id = 2\<rparr> \<and>
   next_id_of ids_reloaded ''t'' = 2 \<and>
   insert_ids ''t'' ids_statements (fst (run fresh_Executor ids_statements)) = [1, 2] \<and>
   insert_ids ''t'' ids_statements (fst (run fresh_Executor ids_statements)) =
     [next_id_of fresh_Executor ''t'' ..< next_id_of fresh_Executor ''t'' +
        length (insert_ids ''t'' ids_statements (fst (run fresh_Executor ids_statements)))] \<and>
   (next_id_of ids_reloaded ''t'' = 1 \<or>
    (\<exists>i \<in> fst ` set [(1, [(''a'', VInt 10)])]. next_id_of ids_reloaded ''t'' = Suc i))"
proof -
  have t: "tables ids_reloaded ''t'' =
     Some \<lparr>schema = [\<lparr>name = ''a'', dtype = DT_INT, is_primary = False, is_unique = False\<rparr>],
           data = Some [(1, [(''a'', VInt 10)])], indexes = [], next_row_id = 2\<rparr>"
    by (simp add: ids_reloaded_def)
  have n: "next_id_of ids_reloaded ''t'' = 2" by (simp add: next_id_of_def t)
  have i: "insert_ids ''t'' ids_statements (fst (run fresh_Executor ids_statements)) = [1, 2]"
    unfolding ids_run by (simp add: ids_statements_def)
  have s: "insert_ids ''t'' ids_statements (fst (run fresh_Executor ids_statements)) =
     [next_id_of fresh_Executor ''t'' ..< next_id_of fresh_Executor ''t'' +
        length (insert_ids ''t'' ids_statements (fst (run fresh_Executor ids_statements)))]"
    using row_ids_sequential_per_executor[of "''t''" ids_statements fresh_Executor]
    by (rule conjunct1)
  have h: "new_Executor (storage (snd (run fresh_Executor ids_statements))) = Inr ids_reloaded \<and>
     tables ids_reloaded ''t'' =
       Some \<lparr>schema = [\<lparr>name = ''a'', dtype = DT_INT, is_primary = False, is_unique = False\<rparr>],
             data = Some [(1, [(''a'', VInt 10)])], indexes = [], next_row_id = 2\<rparr>"
    using ids_restart t by simp
  have r: "next_id_of ids_reloaded ''t'' = 1 \<or>
    (\<exists>i \<in> fst ` set [(1, [(''a'', VInt 10)])]. next_id_of ids_reloaded ''t'' = Suc i)"
    using row_ids_sequential_per_executor[of "''t''" ids_statements fresh_Executor,
            THEN conjunct2, THEN conjunct2, rule_format, OF h, THEN conjunct2]
    by simp
  show ?thesis by (intro conjI ids_restart t n i s r)
qed

text \<open>
  C3 as claimed fails across a restart: row-id 2 is given to the second row, that row is
  deleted, and the executor constructed over the same storage gives row-id 2 to the next
  row inserted.
\<close>

theorem row_id_reused_after_restart:
  "fst (run fresh_Executor ids_statements) =
     [Inr (Created ''t''), Inr (Inserted 1), Inr (Inserted 2), Inr (Deleted 1)] \<and>
   new_Executor (storage (snd (run fresh_Executor ids_statements))) = Inr ids_reloaded \<and>
   fst (execute ids_reloaded (INSERT ''t'' None [VInt 30])) = Inr (Inserted 2)"
proof (intro conjI)
  show "fst (run fresh_Executor ids_statements) =
     [Inr (Created ''t''), Inr (Inserted 1), Inr (Inserted 2), Inr (Deleted 1)]" by (rule ids_run)
  show "new_Executor (storage (snd (run fresh_Executor ids_statements))) = Inr ids_reloaded"
    by (rule ids_restart)
  show "fst (execute ids_reloaded (INSERT ''t'' None [VInt 30])) = Inr (Inserted 2)"
    by (simp add: ids_reloaded_def exec_defs)
qed

section \<open>Index lookup against full scan (C4)\<close>

lemma py_eq_not_None: "py_eq a b \<Longrightarrow> b \<noteq> VNone \<Longrightarrow> a \<noteq> VNone"
  using dkey_None_iff[of b] by (auto simp: py_eq_def)

lemma index_lookup_eq_scan:
  assumes ok: "index_ok rws (cond_column c) ix" and d: "distinct (map fst rws)"
    and v: "cond_value c \<noteq> VNone" and op: "cond_operator c = ''=''"
  shows "index_lookup rws ix (cond_value c) = full_scan rws [c]"
proof -
  have "(i \<in> Index_search ix (cond_value c)) = py_eq (row_get r (cond_column c)) (cond_value c)"
    if m: "(i, r) \<in> set rws" for i r
  proof -
    from d m have mo: "map_of rws i = Some r" by simp
    have nn: "py_eq (row_get r (cond_column c)) (cond_value c) \<Longrightarrow> row_get r (cond_column c) \<noteq> VNone"
      by (rule py_eq_not_None[OF _ v])
    from ok have "Index_search ix (cond_value c) = holders rws (cond_column c) (cond_value c)"
      by (simp add: index_ok_def)
    with holder_iff[OF mo, of "cond_column c" "cond_value c"] nn show ?thesis
      by blast
  qed
  then show ?thesis
    unfolding index_lookup_def full_scan_def
    by (intro filter_cong) (auto simp: cond_holds_def op)
qed

text \<open>
  C4, as the code has it. In every reachable state, for a single equality condition on
  an indexed column whose value is not null, the rows the index lookup returns are the
  rows the full scan with that condition returns.
\<close>

theorem index_lookup_agrees_with_scan:
  assumes "reachable ex" and "tables ex tn = Some t" and "data t = Some rws"
    and "map_of (indexes t) (cond_column c) = Some ix" and "cond_operator c = ''=''"
    and "cond_value c \<noteq> VNone"
  shows "set (apply_where_clause (indexes t) rws (Some [c])) = set (full_scan rws [c])"
proof -
  from reachable_inv[OF assms(1)] assms(2) have inv: "table_inv t" by (simp add: executor_inv_def)
  then obtain rws' where rws: "data t = Some rws'" "rows_ok (schema t) rws'"
    "\<forall>(c, ix) \<in> set (indexes t). index_ok rws' c ix"
    by (auto elim: table_invE)
  with assms(3) have eq: "rws' = rws" by simp
  from assms(4) have "(cond_column c, ix) \<in> set (indexes t)" by (rule map_of_SomeD)
  with rws(3) eq have ok: "index_ok rws (cond_column c) ix" by auto
  from rws(2) eq have d: "distinct (map fst rws)" by (simp add: rows_ok_def)
  have "apply_where_clause (indexes t) rws (Some [c]) = index_lookup rws ix (cond_value c)"
    using assms(4,5) by (simp add: apply_where_clause_def)
  also have "\<dots> = full_scan rws [c]"
    by (rule index_lookup_eq_scan[OF ok d assms(6,5)])
  finally show ?thesis by simp
qed

lemma users_table_data: "data users_table = Some users_rows"
  by (simp add: users_table_def)

theorem index_lookup_agrees_with_scan_witness:
  "reachable users_db \<and> tables users_db ''users'' = Some users_table \<and>
   data users_table = Some users_rows \<and>
   map_of (indexes users_table) ''email'' =
     Some \<lparr>column_name = ''email'', index_is_unique = True,
            index_map = [KStr ''a@x.com'' \<mapsto> {1}, KStr ''b@x.com'' \<mapsto> {2}]\<rparr> \<and>
   full_scan users_rows
     [\<lparr>cond_column = ''email'', cond_operator = ''='', cond_value = VStr ''a@x.com''\<rparr>] =
     [(1, [(''tag'', VStr ''x''), (''id'', VInt 1), (''email'', VStr ''a@x.com'')])] \<and>
   set (apply_where_clause (indexes users_table) users_rows
     (Some [\<lparr>cond_column = ''email'', cond_operator = ''='', cond_value = VStr ''a@x.com''\<rparr>])) =
   set (full_scan users_rows
     [\<lparr>cond_column = ''email'', cond_operator = ''='', cond_value = VStr ''a@x.com''\<rparr>])"
proof -
  let ?c = "\<lparr>cond_column = ''email'', cond_operator = ''='', cond_value = VStr ''a@x.com''\<rparr>"
  have m: "map_of (indexes users_table) (cond_column ?c) =
     Some \<lparr>column_name = ''email'', index_is_unique = True,
            index_map = [KStr ''a@x.com'' \<mapsto> {1}, KStr ''b@x.com'' \<mapsto> {2}]\<rparr>"
    by (simp add: users_table_def)
  have o: "cond_operator ?c = ''=''" by simp
  have v: "cond_value ?c \<noteq> VNone" by simp
  have f: "full_scan users_rows [?c] =
     [(1, [(''tag'', VStr ''x''), (''id'', VInt 1), (''email'', VStr ''a@x.com'')])]"
    by (simp add: users_rows_def exec_defs)
  have e: "set (apply_where_clause (indexes users_table) users_rows (Some [?c])) =
           set (full_scan users_rows [?c])"
    by (rule index_lookup_agrees_with_scan[OF users_db_reachable users_db_table users_table_data m o v])
  from m have m': "map_of (indexes users_table) ''email'' =
     Some \<lparr>column_name = ''email'', index_is_unique = True,
            index_map = [KStr ''a@x.com'' \<mapsto> {1}, KStr ''b@x.com'' \<mapsto> {2}]\<rparr>" by simp
  show ?thesis by (intro conjI users_db_reachable users_db_table users_table_data m' f e)
qed

text \<open>
  C4 as claimed fails for the value null: the third row of the example holds null in the
  indexed column \<^verbatim>\<open>email\<close>; the condition \<^verbatim>\<open>email = NULL\<close> finds nothing through the
  index, which never holds null, and finds the third row in a full scan.
\<close>

theorem index_lookup_misses_null:
  "reachable users_db \<and> tables users_db ''users'' = Some users_table \<and>
   data users_table = Some users_rows \<and>
   apply_where_clause (indexes users_table) users_rows
     (Some [\<lparr>cond_column = ''email'', cond_operator = ''='', cond_value = VNone\<rparr>]) = [] \<and>
   full_scan users_rows [\<lparr>cond_column = ''email'', cond_operator = ''='', cond_value = VNone\<rparr>] =
     [(3, [(''tag'', VStr ''z''), (''id'', VInt 3), (''email'', VNone)])]"
proof (intro conjI users_db_reachable users_db_table users_table_data)
  show "apply_where_clause (indexes users_table) users_rows
     (Some [\<lparr>cond_column = ''email'', cond_operator = ''='', cond_value = VNone\<rparr>]) = []"
    by (simp add: users_table_def users_rows_def exec_defs)
  show "full_scan users_rows [\<lparr>cond_column = ''email'', cond_operator = ''='', cond_value = VNone\<rparr>] =
     [(3, [(''tag'', VStr ''z''), (''id'', VInt 3), (''email'', VNone)])]"
    by (simp add: users_rows_def exec_defs)
qed

section \<open>Primary keys are never null (C5)\<close>

lemma table_inv_error_kind:
  assumes inv: "table_inv t" and cc: "check_constraints (indexes t) r excl (schema t) = Some e"
  shows "(\<exists>col \<in> set (schema t). is_primary col \<and> row_get r (name col) = VNone \<and>
             e = NullPrimaryKey (name col)) \<or>
         (\<exists>col \<in> set (schema t). (is_primary col \<or> is_unique col) \<and> row_get r (name col) \<noteq> VNone \<and>
             e = DuplicateValue (name col) (row_get r (name col)))"
proof -
  from inv have keys: "fst ` set (indexes t) =
      {name col |col. col \<in> set (schema t) \<and> (is_primary col \<or> is_unique col)}"
    by (rule table_invE)
  have "map_of (indexes t) (name col) \<noteq> None"
    if "col \<in> set (schema t)" "is_primary col \<or> is_unique col" for col
  proof -
    from that keys have "name col \<in> fst ` set (indexes t)" by auto
    then show ?thesis by (simp add: map_of_eq_None_iff)
  qed
  with check_constraints_errors[OF cc] show ?thesis by blast
qed

lemma null_primary_fails:
  assumes "col \<in> set cols" "is_primary col" "row_get r (name col) = VNone"
  shows "\<exists>e. check_constraints ixs r excl cols = Some e"
proof (cases "check_constraints ixs r excl cols")
  case None
  from constraints_primary[OF None assms(1,2)] assms(3) show ?thesis by simp
next
  case (Some e)
  then show ?thesis by simp
qed

lemma check_constraints_append:
  "check_constraints ixs r excl pre = None \<Longrightarrow>
   check_constraints ixs r excl (pre @ rest) = check_constraints ixs r excl rest"
  by (induction pre) (auto simp: Let_def split: if_splits option.splits)

lemma first_null_primary_is_reported:
  assumes "check_constraints ixs r excl pre = None" "is_primary col" "row_get r (name col) = VNone"
  shows "check_constraints ixs r excl (pre @ col # post) = Some (NullPrimaryKey (name col))"
  using check_constraints_append[OF assms(1), of "col # post"] assms(2,3) by simp

text \<open>
  C5 as claimed fails in the kind of the error: the assembled row below holds null in the
  primary key \<^verbatim>\<open>id\<close>, but the unique column \<^verbatim>\<open>tag\<close> comes first in the schema and its
  value is taken, so the INSERT fails with the duplicate-value error.
\<close>

theorem null_primary_key_reported_as_duplicate:
  "reachable users_db \<and> tables users_db ''users'' = Some users_table \<and>
   fill_missing (schema users_table) [(''tag'', VStr ''x''), (''id'', VNone), (''email'', VStr ''c@x.com'')]
     = [(''tag'', VStr ''x''), (''id'', VNone), (''email'', VStr ''c@x.com'')] \<and>
   assign_validated (schema users_table)
     (zip (map name (schema users_table)) [VStr ''x'', VNone, VStr ''c@x.com'']) []
     = Inr [(''tag'', VStr ''x''), (''id'', VNone), (''email'', VStr ''c@x.com'')] \<and>
   fst (execute users_db (INSERT ''users'' None [VStr ''x'', VNone, VStr ''c@x.com'']))
     = Inl (DuplicateValue ''tag'' (VStr ''x''))"
proof (intro conjI users_db_reachable users_db_table)
  show "fill_missing (schema users_table) [(''tag'', VStr ''x''), (''id'', VNone), (''email'', VStr ''c@x.com'')]
     = [(''tag'', VStr ''x''), (''id'', VNone), (''email'', VStr ''c@x.com'')]"
    by (simp add: users_table_def)
  show "assign_validated (schema users_table)
     (zip (map name (schema users_table)) [VStr ''x'', VNone, VStr ''c@x.com'']) []
     = Inr [(''tag'', VStr ''x''), (''id'', VNone), (''email'', VStr ''c@x.com'')]"
    by (simp add: users_table_def validate_value_def)
  show "fst (execute users_db (INSERT ''users'' None [VStr ''x'', VNone, VStr ''c@x.com'']))
     = Inl (DuplicateValue ''tag'' (VStr ''x''))"
    by (simp add: users_db_table users_table_def users_rows_def exec_defs)
qed

section \<open>Joins (C8)\<close>

lemma dotted_inj: "dotted tn k = dotted tn k' \<longleftrightarrow> k = k'"
  by (simp add: dotted_def)

lemma prefixed_fold:
  "prefixed tn r acc = fold (\<lambda>(k, v) m. AList.update (dotted tn k) v m) r acc"
  by (simp add: prefixed_def dotted_def)

lemma prefixed_keys:
  "fst ` set (prefixed tn r acc) = fst ` set acc \<union> dotted tn ` fst ` set r"
  unfolding prefixed_fold
proof (induction r arbitrary: acc)
  case Nil
  then show ?case by simp
next
  case (Cons p r)
  obtain k v where p: "p = (k, v)" by (cases p)
  have "fst ` set (AList.update (dotted tn k) v acc) = {dotted tn k} \<union> fst ` set acc"
    by (rule dom_update)
  with Cons[of "AList.update (dotted tn k) v acc"] p show ?case by auto
qed

lemma prefixed_other:
  "x \<notin> dotted tn ` fst ` set r \<Longrightarrow> map_of (prefixed tn r acc) x = map_of acc x"
  unfolding prefixed_fold
  by (induction r arbitrary: acc) (auto simp: update_conv')

lemma prefixed_value:
  "distinct (map fst r) \<Longrightarrow> map_of r k = Some v \<Longrightarrow>
   map_of (prefixed tn r acc) (dotted tn k) = Some v"
proof (induction r arbitrary: acc)
  case Nil
  then show ?case by simp
next
  case (Cons p r)
  obtain k' v' where p: "p = (k', v')" by (cases p)
  have step: "prefixed tn (p # r) acc = prefixed tn r (AList.update (dotted tn k') v' acc)"
    by (simp add: prefixed_fold p)
  show ?case
  proof (cases "k' = k")
    case True
    with Cons.prems p have v: "v' = v" and nk: "k \<notin> fst ` set r" by (auto simp: rev_image_eqI)
    from nk have "dotted tn k \<notin> dotted tn ` fst ` set r"
      by (auto simp: dotted_inj image_iff)
    from prefixed_other[OF this] True v show ?thesis unfolding step by (simp add: update_conv')
  next
    case False
    with Cons.prems p have "distinct (map fst r)" "map_of r k = Some v" by auto
    from Cons.IH[OF this] show ?thesis unfolding step .
  qed
qed

lemma merge_rows_keys:
  "fst ` set (merge_rows lt l rt r) = dotted lt ` fst ` set l \<union> dotted rt ` fst ` set r"
  by (simp add: merge_rows_def prefixed_keys)

lemma merge_rows_right:
  "distinct (map fst r) \<Longrightarrow> map_of r k = Some v \<Longrightarrow>
   map_of (merge_rows lt l rt r) (dotted rt k) = Some v"
  unfolding merge_rows_def by (rule prefixed_value)

lemma merge_rows_left:
  assumes "distinct (map fst l)" "map_of l k = Some v" "dotted lt k \<notin> dotted rt ` fst ` set r"
  shows "map_of (merge_rows lt l rt r) (dotted lt k) = Some v"
  unfolding merge_rows_def prefixed_other[OF assms(3)] by (rule prefixed_value[OF assms(1,2)])

lemma row_get_Nil: "row_get [] c = VNone"
  by (simp add: row_get_def)

lemma join_index_eq_nested:
  assumes ok: "index_ok rrs rc ix" and d: "distinct (map fst rrs)"
  shows "join_index lt lrs rt rrs ix lc = join_nested lt lrs rt rrs lc rc"
proof -
  have f: "filter (\<lambda>(ri, r). ri \<in> Index_search ix lv \<and> r \<noteq> []) rrs =
           filter (\<lambda>(ri, r). py_eq (row_get r rc) lv) rrs" if lv: "lv \<noteq> VNone" for lv
  proof (rule filter_cong[OF refl])
    fix p assume m: "p \<in> set rrs"
    obtain ri r where p: "p = (ri, r)" by (cases p)
    from d m p have mo: "map_of rrs ri = Some r" by simp
    have nn: "py_eq (row_get r rc) lv \<Longrightarrow> row_get r rc \<noteq> VNone" by (rule py_eq_not_None[OF _ lv])
    from ok have "Index_search ix lv = holders rrs rc lv" by (simp add: index_ok_def)
    with holder_iff[OF mo, of rc lv] nn have "ri \<in> Index_search ix lv \<longleftrightarrow> py_eq (row_get r rc) lv"
      by blast
    moreover have "py_eq (row_get r rc) lv \<Longrightarrow> r \<noteq> []" using nn row_get_Nil by auto
    ultimately show "(case p of (ri, r) \<Rightarrow> ri \<in> Index_search ix lv \<and> r \<noteq> []) =
                     (case p of (ri, r) \<Rightarrow> py_eq (row_get r rc) lv)"
      using p by auto
  qed
  show ?thesis unfolding join_index_def join_nested_def
    by (intro arg_cong[of _ _ concat] map_cong refl) (auto simp: Let_def f)
qed

lemma join_nested_skips_null:
  "join_nested lt (filter (\<lambda>(i, l). row_get l lc \<noteq> VNone) lrs) rt rrs lc rc =
   join_nested lt lrs rt rrs lc rc"
  unfolding join_nested_def by (induction lrs) (auto simp: Let_def)

lemma join_nested_member:
  "m \<in> set (join_nested lt lrs rt rrs lc rc) \<longleftrightarrow>
   (\<exists>(li, l) \<in> set lrs. \<exists>(ri, r) \<in> set rrs. row_get l lc \<noteq> VNone \<and>
       py_eq (row_get r rc) (row_get l lc) \<and> m = merge_rows lt l rt r)"
  unfolding join_nested_def by (auto simp: Let_def split: if_splits) force+


lemma table_inv_data:
  assumes "table_inv t" "data t = Some rws"
  shows "rows_ok (schema t) rws" and "\<forall>(c, ix) \<in> set (indexes t). index_ok rws c ix"
  using assms unfolding table_inv_def by auto

lemma shop_db_users: "tables shop_db ''users'' = Some users_table"
  by (simp add: shop_db_def users_statements_def orders_statements_def users_columns_def
      users_table_def users_rows_def exec_defs numeral_2_eq_2 numeral_3_eq_3 eval_nat_numeral)

lemma shop_db_orders: "tables shop_db ''orders'' = Some orders_table"
  by (simp add: shop_db_def users_statements_def orders_statements_def users_columns_def
      orders_table_def orders_rows_def exec_defs numeral_2_eq_2 numeral_3_eq_3 eval_nat_numeral)

lemma shop_db_reachable: "reachable shop_db"
  unfolding shop_db_def by (rule reachable_run[OF reachable_fresh])

text \<open>
  C8, as the code has it. In every reachable state, for a join of rows of the left table
  with the right table: the join returns a result; a left row whose join value is null
  contributes nothing (the result is that of the left rows without them); the result has
  the same rows, with the same multiplicities, as the nested loop over the right table,
  and so has the index path whenever the right column has an index; every pair of a
  left row with a non-null join value and a right row whose join value equals it (\<^verbatim>\<open>==\<close>)
  gives its merged row to the result; and every result row is the merge of such a pair:
  its keys are the left columns prefixed with the left table's name and a dot and the
  right columns prefixed with the right table's name and a dot, every right value stands
  under its key, and every left value stands under its key unless that key is also the
  key of a right column, where the right value stands.
\<close>

theorem join_merges_matching_rows:
  assumes "reachable ex" and "tables ex lt = Some ltab" and "data ltab = Some lrws"
    and "set left_rows \<subseteq> set lrws"
    and "tables ex (join_table j) = Some rtab" and "data rtab = Some rrws"
  shows "\<exists>res. execute_join ex lt left_rows j = Inr res \<and>
      execute_join ex lt (filter (\<lambda>(i, l). row_get l (left_column j) \<noteq> VNone) left_rows) j = Inr res \<and>
      mset res = mset (join_nested lt left_rows (join_table j) rrws (left_column j) (right_column j)) \<and>
      (\<forall>ix. map_of (indexes rtab) (right_column j) = Some ix \<longrightarrow>
         mset (join_index lt left_rows (join_table j) rrws ix (left_column j)) =
         mset (join_nested lt left_rows (join_table j) rrws (left_column j) (right_column j))) \<and>
      (\<forall>(li, l) \<in> set left_rows. \<forall>(ri, r) \<in> set rrws.
          row_get l (left_column j) \<noteq> VNone \<and>
          py_eq (row_get r (right_column j)) (row_get l (left_column j)) \<longrightarrow>
          merge_rows lt l (join_table j) r \<in> set res) \<and>
      (\<forall>m \<in> set res. \<exists>(li, l) \<in> set left_rows. \<exists>(ri, r) \<in> set rrws.
          row_get l (left_column j) \<noteq> VNone \<and>
          py_eq (row_get r (right_column j)) (row_get l (left_column j)) \<and>
          m = merge_rows lt l (join_table j) r \<and>
          fst ` set m = dotted lt ` fst ` set l \<union> dotted (join_table j) ` fst ` set r \<and>
          (\<forall>k v. map_of r k = Some v \<longrightarrow> map_of m (dotted (join_table j) k) = Some v) \<and>
          (\<forall>k v. map_of l k = Some v \<and> dotted lt k \<notin> dotted (join_table j) ` fst ` set r \<longrightarrow>
                 map_of m (dotted lt k) = Some v))"
proof -
  let ?rt = "join_table j" and ?lc = "left_column j" and ?rc = "right_column j"
  let ?nested = "\<lambda>rows. join_nested lt rows ?rt rrws ?lc ?rc"
  from reachable_inv[OF assms(1)] assms(2,5)
  have linv: "table_inv ltab" and rinv: "table_inv rtab" by (simp_all add: executor_inv_def)
  from linv assms(3) have lok: "rows_ok (schema ltab) lrws" by (rule table_inv_data)
  from rinv assms(6) have rok: "rows_ok (schema rtab) rrws"
    and iok: "\<forall>(c, ix) \<in> set (indexes rtab). index_ok rrws c ix" by (rule table_inv_data)+
  from rok have d: "distinct (map fst rrws)" by (simp add: rows_ok_def)
  have ldk: "distinct (map fst l)" if "(li, l) \<in> set left_rows" for li l
    using lok assms(4) that by (auto simp: rows_ok_def)
  have rdk: "distinct (map fst r)" if "(ri, r) \<in> set rrws" for ri r
    using rok that by (auto simp: rows_ok_def)
  have idx: "join_index lt rows ?rt rrws ix ?lc = ?nested rows"
    if "map_of (indexes rtab) ?rc = Some ix" for ix rows
  proof -
    from that have "(?rc, ix) \<in> set (indexes rtab)" by (rule map_of_SomeD)
    with iok have "index_ok rrws ?rc ix" by auto
    from join_index_eq_nested[OF this d] show ?thesis .
  qed
  have ej: "execute_join ex lt rows j = Inr (?nested rows)" for rows
    using assms(5,6) idx by (auto simp: execute_join_def split: option.splits)
  have member: "\<exists>(li, l) \<in> set left_rows. \<exists>(ri, r) \<in> set rrws.
          row_get l ?lc \<noteq> VNone \<and> py_eq (row_get r ?rc) (row_get l ?lc) \<and>
          m = merge_rows lt l ?rt r \<and>
          fst ` set m = dotted lt ` fst ` set l \<union> dotted ?rt ` fst ` set r \<and>
          (\<forall>k v. map_of r k = Some v \<longrightarrow> map_of m (dotted ?rt k) = Some v) \<and>
          (\<forall>k v. map_of l k = Some v \<and> dotted lt k \<notin> dotted ?rt ` fst ` set r \<longrightarrow>
                 map_of m (dotted lt k) = Some v)"
    if "m \<in> set (?nested left_rows)" for m
  proof -
    from that obtain li l ri r where lr: "(li, l) \<in> set left_rows" "(ri, r) \<in> set rrws"
      "row_get l ?lc \<noteq> VNone" "py_eq (row_get r ?rc) (row_get l ?lc)" "m = merge_rows lt l ?rt r"
      unfolding join_nested_member by blast
    have "fst ` set m = dotted lt ` fst ` set l \<union> dotted ?rt ` fst ` set r"
      unfolding lr(5) by (rule merge_rows_keys)
    moreover have "\<forall>k v. map_of r k = Some v \<longrightarrow> map_of m (dotted ?rt k) = Some v"
      unfolding lr(5) using merge_rows_right[OF rdk[OF lr(2)]] by blast
    moreover have "\<forall>k v. map_of l k = Some v \<and> dotted lt k \<notin> dotted ?rt ` fst ` set r \<longrightarrow>
                 map_of m (dotted lt k) = Some v"
      unfolding lr(5) using merge_rows_left[OF ldk[OF lr(1)]] by blast
    ultimately show ?thesis using lr by blast
  qed
  have complete: "\<forall>(li, l) \<in> set left_rows. \<forall>(ri, r) \<in> set rrws.
          row_get l ?lc \<noteq> VNone \<and> py_eq (row_get r ?rc) (row_get l ?lc) \<longrightarrow>
          merge_rows lt l ?rt r \<in> set (?nested left_rows)"
    unfolding join_nested_member by blast
  have skip: "execute_join ex lt (filter (\<lambda>(i, l). row_get l ?lc \<noteq> VNone) left_rows) j
            = Inr (?nested left_rows)"
    unfolding ej by (simp add: join_nested_skips_null)
  have same: "\<forall>ix. map_of (indexes rtab) ?rc = Some ix \<longrightarrow>
         mset (join_index lt left_rows ?rt rrws ix ?lc) = mset (?nested left_rows)"
    using idx by simp
  have merged: "\<forall>m \<in> set (?nested left_rows). \<exists>(li, l) \<in> set left_rows. \<exists>(ri, r) \<in> set rrws.
          row_get l ?lc \<noteq> VNone \<and> py_eq (row_get r ?rc) (row_get l ?lc) \<and>
          m = merge_rows lt l ?rt r \<and>
          fst ` set m = dotted lt ` fst ` set l \<union> dotted ?rt ` fst ` set r \<and>
          (\<forall>k v. map_of r k = Some v \<longrightarrow> map_of m (dotted ?rt k) = Some v) \<and>
          (\<forall>k v. map_of l k = Some v \<and> dotted lt k \<notin> dotted ?rt ` fst ` set r \<longrightarrow>
                 map_of m (dotted lt k) = Some v)"
    using member by blast
  show ?thesis
    by (intro exI[of _ "?nested left_rows"] conjI ej skip refl same complete merged)
qed

lemma orders_table_data: "data orders_table = Some orders_rows"
  by (simp add: orders_table_def)

theorem join_merges_matching_rows_witness:
  "reachable shop_db \<and> tables shop_db ''orders'' = Some orders_table \<and>
   data orders_table = Some orders_rows \<and> set orders_rows \<subseteq> set orders_rows \<and>
   tables shop_db (join_table \<lparr>join_table = ''users'', left_column = ''user_id'', right_column = ''id''\<rparr>)
     = Some users_table \<and>
   data users_table = Some users_rows \<and>
   execute_join shop_db ''orders'' orders_rows
       \<lparr>join_table = ''users'', left_column = ''user_id'', right_column = ''id''\<rparr> =
     Inr [[(''orders.id'', VInt 1), (''orders.user_id'', VInt 2),
           (''users.tag'', VStr ''y''), (''users.id'', VInt 2), (''users.email'', VStr ''b@x.com'')]] \<and>
   (\<exists>res. execute_join shop_db ''orders'' orders_rows
              \<lparr>join_table = ''users'', left_column = ''user_id'', right_column = ''id''\<rparr> = Inr res \<and>
          mset res = mset (join_nested ''orders'' orders_rows ''users'' users_rows ''user_id'' ''id''))"
proof -
  let ?j = "\<lparr>join_table = ''users'', left_column = ''user_id'', right_column = ''id''\<rparr>"
  have u: "tables shop_db (join_table ?j) = Some users_table" using shop_db_users by simp
  have s: "set orders_rows \<subseteq> set orders_rows" by simp
  have e: "execute_join shop_db ''orders'' orders_rows ?j =
     Inr [[(''orders.id'', VInt 1), (''orders.user_id'', VInt 2),
           (''users.tag'', VStr ''y''), (''users.id'', VInt 2), (''users.email'', VStr ''b@x.com'')]]"
    by (simp add: shop_db_users users_table_def users_rows_def orders_rows_def exec_defs)
  from join_merges_matching_rows[OF shop_db_reachable shop_db_orders orders_table_data s u
         users_table_data]
  have r: "\<exists>res. execute_join shop_db ''orders'' orders_rows ?j = Inr res \<and>
          mset res = mset (join_nested ''orders'' orders_rows ''users'' users_rows ''user_id'' ''id'')"
    by auto
  show ?thesis by (intro conjI shop_db_reachable shop_db_orders orders_table_data s u users_table_data e r)
qed

section \<open>The constraint check raises the first violation (C5)\<close>

text \<open>
  C5, as the code has it. In every reachable state, for every table and every column of
  it marked primary: no stored row holds null in the column. The constraint check raises
  exactly the first violation in schema order, so for an INSERT whose assembled row, or
  an UPDATE whose tentative row, holds null in the column: the statement fails and
  leaves the table as it was; the error is the null-primary-key error of the column when
  no column before it in the schema is violated, and the error of the first violated
  column otherwise (the null-primary-key error of an earlier primary column that is null,
  or the duplicate-value error of an earlier primary or unique column whose non-null
  value another row holds). A row that violates nothing is committed.
\<close>

theorem primary_key_never_null:
  assumes "reachable ex" and "tables ex tn = Some t"
    and "col \<in> set (schema t)" and "is_primary col"
  shows "\<exists>rws. data t = Some rws \<and>
    (\<forall>(i, r) \<in> set rws. row_get r (name col) \<noteq> VNone) \<and>
    (\<forall>r excl. row_get r (name col) = VNone \<longrightarrow>
       (\<exists>e. first_violation rws r excl (schema t) = Some e)) \<and>
    (\<forall>r excl pre post.
       schema t = pre @ col # post \<and> row_get r (name col) = VNone \<and>
       first_violation rws r excl pre = None \<longrightarrow>
       first_violation rws r excl (schema t) = Some (NullPrimaryKey (name col))) \<and>
    (\<forall>columns vals rd.
       length (case columns of None \<Rightarrow> map name (schema t) | Some [] \<Rightarrow> map name (schema t)
               | Some cs \<Rightarrow> cs) = length vals \<and>
       assign_validated (schema t)
         (zip (case columns of None \<Rightarrow> map name (schema t) | Some [] \<Rightarrow> map name (schema t)
               | Some cs \<Rightarrow> cs) vals) [] = Inr rd \<longrightarrow>
       (case first_violation rws (fill_missing (schema t) rd) None (schema t) of
          Some e \<Rightarrow> insert_row t columns vals = (Inl e, t)
        | None \<Rightarrow>
            (\<exists>t'. insert_row t columns vals = (Inr (next_row_id t), t') \<and>
                  data t' = Some (AList.update (next_row_id t) (fill_missing (schema t) rd) rws)))) \<and>
    (\<forall>assignments i r r'.
       map_of rws i = Some r \<and> assign_validated (schema t) assignments r = Inr r' \<longrightarrow>
       (case first_violation rws r' (Some i) (schema t) of
          Some e \<Rightarrow> update_one assignments i t = (Some e, t)
        | None \<Rightarrow>
            (\<exists>t'. update_one assignments i t = (None, t') \<and>
                  data t' = Some (AList.update i r' rws))))"
proof -
  from reachable_inv[OF assms(1)] assms(2) have inv: "table_inv t" by (simp add: executor_inv_def)
  then obtain rws where data: "data t = Some rws" by (auto simp: table_inv_def)
  from table_inv_data(1)[OF inv data] have ro: "rows_ok (schema t) rws" .
  note chk = table_inv_check[OF inv data]
  have 1: "\<forall>(i, r) \<in> set rws. row_get r (name col) \<noteq> VNone"
    using ro assms(3,4) by (auto simp: rows_ok_def)
  have 2: "\<exists>e. first_violation rws r excl (schema t) = Some e"
    if "row_get r (name col) = VNone" for r excl
    by (rule first_violation_null_primary[OF assms(3,4) that])
  have 3: "first_violation rws r excl (schema t) = Some (NullPrimaryKey (name col))"
    if "schema t = pre @ col # post \<and> row_get r (name col) = VNone \<and>
        first_violation rws r excl pre = None" for r excl pre post
    using that assms(4) by (simp add: first_violation_append)
  have 4: "case first_violation rws (fill_missing (schema t) rd) None (schema t) of
          Some e \<Rightarrow> insert_row t columns vals = (Inl e, t)
        | None \<Rightarrow>
            (\<exists>t'. insert_row t columns vals = (Inr (next_row_id t), t') \<and>
                  data t' = Some (AList.update (next_row_id t) (fill_missing (schema t) rd) rws))"
    if h: "length (case columns of None \<Rightarrow> map name (schema t) | Some [] \<Rightarrow> map name (schema t)
               | Some cs \<Rightarrow> cs) = length vals \<and>
       assign_validated (schema t)
         (zip (case columns of None \<Rightarrow> map name (schema t) | Some [] \<Rightarrow> map name (schema t)
               | Some cs \<Rightarrow> cs) vals) [] = Inr rd"
    for columns vals rd
  proof (cases "first_violation rws (fill_missing (schema t) rd) None (schema t)")
    case None
    with chk have cc: "check_constraints (indexes t) (fill_missing (schema t) rd) None (schema t) = None"
      by simp
    from insert_row_commits[OF inv data conjunct1[OF h] conjunct2[OF h] cc] None
    show ?thesis by simp
  next
    case (Some e)
    with chk have "check_constraints (indexes t) (fill_missing (schema t) rd) None (schema t) = Some e"
      by simp
    with h data have "insert_row t columns vals = (Inl e, t)"
      by (simp add: insert_row_def Let_def)
    with Some show ?thesis by simp
  qed
  have 5: "case first_violation rws r' (Some i) (schema t) of
          Some e \<Rightarrow> update_one assignments i t = (Some e, t)
        | None \<Rightarrow>
            (\<exists>t'. update_one assignments i t = (None, t') \<and>
                  data t' = Some (AList.update i r' rws))"
    if h: "map_of rws i = Some r \<and> assign_validated (schema t) assignments r = Inr r'"
    for assignments i r r'
  proof (cases "first_violation rws r' (Some i) (schema t)")
    case None
    with chk have cc: "check_constraints (indexes t) r' (Some i) (schema t) = None" by simp
    from update_one_commits[OF inv data conjunct1[OF h] conjunct2[OF h] cc] None
    show ?thesis by simp
  next
    case (Some e)
    with chk have "check_constraints (indexes t) r' (Some i) (schema t) = Some e" by simp
    with h data have "update_one assignments i t = (Some e, t)"
      by (simp add: update_one_def)
    with Some show ?thesis by simp
  qed
  from data 1 2 3 4 5 show ?thesis by blast
qed

theorem primary_key_never_null_witness:
  "reachable users_db \<and> tables users_db ''users'' = Some users_table \<and>
   \<lparr>name = ''id'', dtype = DT_INT, is_primary = True, is_unique = True\<rparr> \<in> set (schema users_table) \<and>
   is_primary \<lparr>name = ''id'', dtype = DT_INT, is_primary = True, is_unique = True\<rparr> \<and>
   first_violation users_rows [(''tag'', VStr ''w''), (''id'', VNone), (''email'', VStr ''c@x.com'')]
     None (schema users_table) = Some (NullPrimaryKey ''id'') \<and>
   insert_row users_table None [VStr ''w'', VNone, VStr ''c@x.com'']
     = (Inl (NullPrimaryKey ''id''), users_table) \<and>
   first_violation users_rows [(''tag'', VStr ''y''), (''id'', VNone), (''email'', VStr ''b@x.com'')]
     (Some 2) (schema users_table) = Some (NullPrimaryKey ''id'') \<and>
   update_one [(''id'', VNone)] 2 users_table = (Some (NullPrimaryKey ''id''), users_table) \<and>
   (\<exists>rws. data users_table = Some rws \<and> (\<forall>(i, r) \<in> set rws. row_get r ''id'' \<noteq> VNone))"
proof -
  let ?col = "\<lparr>name = ''id'', dtype = DT_INT, is_primary = True, is_unique = True\<rparr>"
  let ?r1 = "[(''tag'', VStr ''w''), (''id'', VNone), (''email'', VStr ''c@x.com'')]"
  let ?r2 = "[(''tag'', VStr ''y''), (''id'', VNone), (''email'', VStr ''b@x.com'')]"
  have m: "?col \<in> set (schema users_table)" by (simp add: users_table_def)
  have p: "is_primary ?col" by simp
  note inst = primary_key_never_null[OF users_db_reachable users_db_table m p]
  from inst users_table_data obtain
    ins: "\<forall>columns vals rd.
       length (case columns of None \<Rightarrow> map name (schema users_table)
               | Some [] \<Rightarrow> map name (schema users_table) | Some cs \<Rightarrow> cs) = length vals \<and>
       assign_validated (schema users_table)
         (zip (case columns of None \<Rightarrow> map name (schema users_table)
               | Some [] \<Rightarrow> map name (schema users_table) | Some cs \<Rightarrow> cs) vals) [] = Inr rd \<longrightarrow>
       (case first_violation users_rows (fill_missing (schema users_table) rd) None (schema users_table) of
          Some e \<Rightarrow> insert_row users_table columns vals = (Inl e, users_table)
        | None \<Rightarrow>
            (\<exists>t'. insert_row users_table columns vals = (Inr (next_row_id users_table), t') \<and>
                  data t' = Some (AList.update (next_row_id users_table)
                                    (fill_missing (schema users_table) rd) users_rows)))"
    and upd: "\<forall>assignments i r r'.
       map_of users_rows i = Some r \<and> assign_validated (schema users_table) assignments r = Inr r' \<longrightarrow>
       (case first_violation users_rows r' (Some i) (schema users_table) of
          Some e \<Rightarrow> update_one assignments i users_table = (Some e, users_table)
        | None \<Rightarrow>
            (\<exists>t'. update_one assignments i users_table = (None, t') \<and>
                  data t' = Some (AList.update i r' users_rows)))"
    and stored: "\<forall>(i, r) \<in> set users_rows. row_get r (name ?col) \<noteq> VNone"
    by auto
  have f1: "first_violation users_rows ?r1 None (schema users_table) = Some (NullPrimaryKey ''id'')"
    by (simp add: users_table_def users_rows_def value_taken_def row_get_def py_eq_def)
  have a1: "length (case None of None \<Rightarrow> map name (schema users_table)
               | Some [] \<Rightarrow> map name (schema users_table) | Some cs \<Rightarrow> cs)
              = length [VStr ''w'', VNone, VStr ''c@x.com''] \<and>
       assign_validated (schema users_table)
         (zip (case None of None \<Rightarrow> map name (schema users_table)
               | Some [] \<Rightarrow> map name (schema users_table) | Some cs \<Rightarrow> cs)
              [VStr ''w'', VNone, VStr ''c@x.com'']) [] = Inr ?r1"
    by (simp add: users_table_def validate_value_def)
  have fm: "fill_missing (schema users_table) ?r1 = ?r1" by (simp add: users_table_def)
  from ins[rule_format, OF a1] have i1: "insert_row users_table None [VStr ''w'', VNone, VStr ''c@x.com'']
     = (Inl (NullPrimaryKey ''id''), users_table)"
    unfolding fm f1 by simp
  have f2: "first_violation users_rows ?r2 (Some 2) (schema users_table) = Some (NullPrimaryKey ''id'')"
    by (simp add: users_table_def users_rows_def value_taken_def row_get_def py_eq_def)
  have a2: "map_of users_rows 2 = Some [(''tag'', VStr ''y''), (''id'', VInt 2), (''email'', VStr ''b@x.com'')] \<and>
       assign_validated (schema users_table) [(''id'', VNone)]
         [(''tag'', VStr ''y''), (''id'', VInt 2), (''email'', VStr ''b@x.com'')] = Inr ?r2"
    by (simp add: users_table_def users_rows_def validate_value_def)
  from upd[rule_format, OF a2] have u1:
    "update_one [(''id'', VNone)] 2 users_table = (Some (NullPrimaryKey ''id''), users_table)"
    unfolding f2 by simp
  have s: "\<exists>rws. data users_table = Some rws \<and> (\<forall>(i, r) \<in> set rws. row_get r ''id'' \<noteq> VNone)"
    using stored users_table_data by auto
  show ?thesis by (intro conjI users_db_reachable users_db_table m p f1 i1 f2 u1 s)
qed

section \<open>Booleans in INT columns (C10)\<close>


lemma assign_validated_other:
  "assign_validated cols asg r = Inr r' \<Longrightarrow> c \<notin> fst ` set asg \<Longrightarrow> map_of r' c = map_of r c"
proof (induction cols asg r rule: assign_validated.induct)
  case (1 cols r)
  then show ?case by simp
next
  case (2 cols k v rest r)
  from "2.prems"(1) obtain cd where f: "find (\<lambda>col. name col = k) cols = Some cd"
    and v: "validate_value cd v" and rec: "assign_validated cols rest (AList.update k v r) = Inr r'"
    by (auto split: option.splits if_splits)
  from "2.prems"(2) have nk: "c \<noteq> k" and nr: "c \<notin> fst ` set rest" by auto
  from "2.IH"[OF f _ rec nr] v nk show ?case by (simp add: update_conv')
qed

lemma assign_validated_value:
  "assign_validated cols asg r = Inr r' \<Longrightarrow> distinct (map fst asg) \<Longrightarrow> (c, v) \<in> set asg \<Longrightarrow>
   map_of r' c = Some v"
proof (induction cols asg r rule: assign_validated.induct)
  case (1 cols r)
  then show ?case by simp
next
  case (2 cols k w rest r)
  from "2.prems"(1) obtain cd where f: "find (\<lambda>col. name col = k) cols = Some cd"
    and vv: "validate_value cd w" and rec: "assign_validated cols rest (AList.update k w r) = Inr r'"
    by (auto split: option.splits if_splits)
  show ?case
  proof (cases "(c, v) = (k, w)")
    case True
    with "2.prems"(2) have "c \<notin> fst ` set rest" by auto
    from assign_validated_other[OF rec this] True show ?thesis by (simp add: update_conv')
  next
    case False
    with "2.prems"(3) have m: "(c, v) \<in> set rest" by auto
    from "2.prems"(2) have d: "distinct (map fst rest)" by simp
    from "2.IH"[OF f _ rec d m] vv show ?thesis by simp
  qed
qed






section \<open>A join of a table with itself (C8)\<close>

text \<open>
  C8 as claimed fails for a join of a table with itself: both sides get the same
  prefix, and the right row's entries replace the left row's. Joining the orders with
  themselves on \<^verbatim>\<open>user_id = id\<close>, the first order (id 1, user 2) meets the second
  (id 2, no user), and the one result row holds the second order only: under
  \<^verbatim>\<open>orders.id\<close> stands 2, not the left row's 1.
\<close>

theorem self_join_loses_left_row:
  "reachable shop_db \<and> tables shop_db ''orders'' = Some orders_table \<and>
   data orders_table = Some orders_rows \<and>
   filter (\<lambda>(i, l). row_get l ''user_id'' \<noteq> VNone) orders_rows
     = [(1, [(''id'', VInt 1), (''user_id'', VInt 2)])] \<and>
   execute_join shop_db ''orders'' orders_rows
       \<lparr>join_table = ''orders'', left_column = ''user_id'', right_column = ''id''\<rparr> =
     Inr [[(''orders.id'', VInt 2), (''orders.user_id'', VNone)]] \<and>
   map_of [(''orders.id'', VInt 2), (''orders.user_id'', VNone)] ''orders.id'' = Some (VInt 2) \<and>
   map_of [(''id'', VInt 1), (''user_id'', VInt 2)] ''id'' = Some (VInt 1)"
proof (intro conjI shop_db_reachable shop_db_orders orders_table_data)
  show "filter (\<lambda>(i, l). row_get l ''user_id'' \<noteq> VNone) orders_rows
     = [(1, [(''id'', VInt 1), (''user_id'', VInt 2)])]"
    by (simp add: orders_rows_def row_get_def)
  show "execute_join shop_db ''orders'' orders_rows
       \<lparr>join_table = ''orders'', left_column = ''user_id'', right_column = ''id''\<rparr> =
     Inr [[(''orders.id'', VInt 2), (''orders.user_id'', VNone)]]"
    by (simp add: shop_db_orders orders_table_def orders_rows_def exec_defs)
  show "map_of [(''orders.id'', VInt 2), (''orders.user_id'', VNone)] ''orders.id'' = Some (VInt 2)"
    by simp
  show "map_of [(''id'', VInt 1), (''user_id'', VInt 2)] ''id'' = Some (VInt 1)" by simp
qed

section \<open>An UPDATE to a value that another row holds (C7)\<close>

lemma update_one_schema: "update_one asg i t = (res, t') \<Longrightarrow> schema t' = schema t"
  by (auto simp: update_one_def split: option.splits sum.splits prod.splits)

lemma first_violation_taken:
  "col \<in> set cols \<Longrightarrow> is_primary col \<or> is_unique col \<Longrightarrow> row_get r (name col) \<noteq> VNone \<Longrightarrow>
   value_taken rws (name col) (row_get r (name col)) excl \<Longrightarrow>
   \<exists>e. first_violation rws r excl cols = Some e"
  by (induction cols) auto

lemma first_violation_errors:
  "first_violation rws r excl cols = Some e \<Longrightarrow>
   (\<exists>col \<in> set cols. is_primary col \<and> row_get r (name col) = VNone \<and> e = NullPrimaryKey (name col)) \<or>
   (\<exists>col \<in> set cols. (is_primary col \<or> is_unique col) \<and> row_get r (name col) \<noteq> VNone \<and>
       value_taken rws (name col) (row_get r (name col)) excl \<and>
       e = DuplicateValue (name col) (row_get r (name col)))"
proof (induction cols)
  case Nil
  then show ?case by simp
next
  case (Cons col cols)
  show ?case
  proof (cases "first_violation rws r excl cols = Some e")
    case True
    from Cons.IH[OF this] show ?thesis by auto
  next
    case False
    with Cons.prems show ?thesis by (auto split: if_splits)
  qed
qed

lemma update_one_cases:
  assumes inv: "table_inv t" and data: "data t = Some rws" and row: "map_of rws i = Some r"
  shows "case update_error (schema t) rws asg i r of
           Some e \<Rightarrow> update_one asg i t = (Some e, t)
         | None \<Rightarrow> (\<exists>r' t'. assign_validated (schema t) asg r = Inr r' \<and>
                       update_one asg i t = (None, t') \<and>
                       data t' = Some (AList.update i r' rws))"
proof (cases "assign_validated (schema t) asg r")
  case (Inl e)
  with data row show ?thesis by (simp add: update_error_def update_one_def)
next
  case (Inr r')
  note chk = table_inv_check[OF inv data]
  show ?thesis
  proof (cases "first_violation rws r' (Some i) (schema t)")
    case None
    with chk have cc: "check_constraints (indexes t) r' (Some i) (schema t) = None" by simp
    from update_one_commits[OF inv data row Inr cc] None Inr
    show ?thesis by (simp add: update_error_def)
  next
    case (Some e)
    with chk have "check_constraints (indexes t) r' (Some i) (schema t) = Some e" by simp
    with Inr data row have "update_one asg i t = (Some e, t)"
      by (simp add: update_one_def)
    with Some Inr show ?thesis by (simp add: update_error_def)
  qed
qed

lemma update_error_taken:
  assumes col: "col \<in> set cols" "is_primary col \<or> is_unique col"
    and asg: "distinct (map fst asg)" "(name col, v) \<in> set asg" "v \<noteq> VNone"
    and holder: "(j, rj) \<in> set rws" "py_eq (row_get rj (name col)) v" and ne: "k \<noteq> j"
  shows "\<exists>e. update_error cols rws asg k rk = Some e"
proof (cases "assign_validated cols asg rk")
  case (Inl e)
  then show ?thesis by (simp add: update_error_def)
next
  case (Inr r')
  from assign_validated_value[OF Inr asg(1,2)] have v: "row_get r' (name col) = v"
    by (simp add: row_get_def)
  from py_eq_not_None[OF holder(2) asg(3)] have "row_get rj (name col) \<noteq> VNone" .
  with holder ne have "value_taken rws (name col) v (Some k)"
    by (auto simp: value_taken_def list_ex_iff)
  with first_violation_taken[OF col(1,2), of r' rws "Some k"] v asg(3)
  have "\<exists>e. first_violation rws r' (Some k) cols = Some e" by simp
  with Inr show ?thesis by (simp add: update_error_def)
qed

lemma apply_where_clause_filter: "\<exists>P. apply_where_clause ixs rws conds = filter P rws"
proof -
  have "\<exists>P. rws = filter P rws" by (rule exI[of _ "\<lambda>_. True"]) simp
  then show ?thesis
    by (auto simp: apply_where_clause_def full_scan_def index_lookup_def
        split: option.splits list.splits)
qed

lemma py_eq_refl_right: "py_eq a b \<Longrightarrow> py_eq b b"
  by (auto simp: py_eq_def)

lemma update_rows_taken:
  assumes inv: "table_inv t" and data: "data t = Some rws"
    and col: "col \<in> set (schema t)" "is_primary col \<or> is_unique col"
    and asg: "distinct (map fst asg)" "(name col, v) \<in> set asg" "v \<noteq> VNone"
    and holder: "map_of rws j = Some rj" "py_eq (row_get rj (name col)) v"
    and ids: "distinct ids" "set ids \<subseteq> fst ` set rws" "i \<in> set ids" "i \<noteq> j"
  shows "\<exists>e t' rws' k rk.
      update_rows asg ids t n = (Inl e, t') \<and> table_inv t' \<and> data t' = Some rws' \<and>
      schema t' = schema t \<and>
      (\<forall>m. m \<noteq> j \<longrightarrow> map_of rws' m = map_of rws m) \<and>
      (t' = t \<or> (\<exists>rest. ids = j # rest \<and> update_one asg j t = (None, t'))) \<and>
      (\<exists>rj'. map_of rws' j = Some rj' \<and> py_eq (row_get rj' (name col)) v) \<and>
      k \<in> set ids \<and> map_of rws' k = Some rk \<and>
      update_one asg k t' = (Some e, t') \<and>
      update_error (schema t) rws' asg k rk = Some e"
proof -
  from ids(3) obtain k rest where ids_eq: "ids = k # rest" by (cases ids) auto
  have stay: "\<exists>e t' rws' k rk.
      update_rows asg ids t n = (Inl e, t') \<and> table_inv t' \<and> data t' = Some rws' \<and>
      schema t' = schema t \<and>
      (\<forall>m. m \<noteq> j \<longrightarrow> map_of rws' m = map_of rws m) \<and>
      (t' = t \<or> (\<exists>rest. ids = j # rest \<and> update_one asg j t = (None, t'))) \<and>
      (\<exists>rj'. map_of rws' j = Some rj' \<and> py_eq (row_get rj' (name col)) v) \<and>
      k \<in> set ids \<and> map_of rws' k = Some rk \<and>
      update_one asg k t' = (Some e, t') \<and>
      update_error (schema t) rws' asg k rk = Some e"
    if rk: "map_of rws k = Some rk" and err: "update_error (schema t) rws asg k rk = Some e"
    for rk e
  proof -
    from update_one_cases[OF inv data rk, of asg] err
    have u: "update_one asg k t = (Some e, t)" by simp
    then have ur: "update_rows asg ids t n = (Inl e, t)" by (simp add: ids_eq)
    have kin: "k \<in> set ids" by (simp add: ids_eq)
    from holder have h: "\<exists>rj'. map_of rws j = Some rj' \<and> py_eq (row_get rj' (name col)) v" by blast
    show ?thesis
      by (intro exI[of _ e] exI[of _ t] exI[of _ rws] exI[of _ k] exI[of _ rk] conjI
          ur inv data refl allI impI disjI1 h kin rk u err)
  qed
  from ids(2) ids_eq have "k \<in> fst ` set rws" by simp
  then obtain rk where rk: "map_of rws k = Some rk"
    by (metis map_of_eq_None_iff not_Some_eq)
  have jmem: "(j, rj) \<in> set rws" using holder(1) by (rule map_of_SomeD)
  show ?thesis
  proof (cases "k = j")
    case False
    from update_error_taken[OF col asg jmem holder(2) False, of rk]
    obtain e where "update_error (schema t) rws asg k rk = Some e" by blast
    from stay[OF rk this] show ?thesis .
  next
    case True
    show ?thesis
    proof (cases "update_error (schema t) rws asg k rk")
      case (Some e)
      from stay[OF rk Some] show ?thesis .
    next
      case None
      from rk True holder(1) have rkj: "rk = rj" by simp
      from update_one_cases[OF inv data rk, of asg] None True
      obtain r' t2 where a: "assign_validated (schema t) asg rk = Inr r'"
        and u: "update_one asg j t = (None, t2)"
        and d2: "data t2 = Some (AList.update j r' rws)" by auto
      let ?rws2 = "AList.update j r' rws"
      from update_one_inv[OF inv u] have inv2: "table_inv t2" .
      from update_one_schema[OF u] have s2: "schema t2 = schema t" .
      from ids(1,3,4) ids_eq True obtain k' rest' where rest: "rest = k' # rest'"
        by (cases rest) auto
      from ids(1) ids_eq True rest have ne: "k' \<noteq> j" by auto
      from ids(2) ids_eq rest have "k' \<in> fst ` set rws" by simp
      then obtain rk' where rk': "map_of rws k' = Some rk'"
        by (metis map_of_eq_None_iff not_Some_eq)
      with ne have rk2: "map_of ?rws2 k' = Some rk'" by (simp add: update_conv')
      have j2: "map_of ?rws2 j = Some r'" by (simp add: update_conv')
      then have jmem2: "(j, r') \<in> set ?rws2" by (rule map_of_SomeD)
      from assign_validated_value[OF a asg(1,2)] have v: "row_get r' (name col) = v"
        by (simp add: row_get_def)
      from py_eq_refl_right[OF holder(2)] v have h2: "py_eq (row_get r' (name col)) v" by simp
      from col s2 have col2: "col \<in> set (schema t2)" by simp
      from update_error_taken[OF col2 col(2) asg jmem2 h2 ne, of rk']
      obtain e where err: "update_error (schema t2) ?rws2 asg k' rk' = Some e" by blast
      from update_one_cases[OF inv2 d2 rk2, of asg] err
      have u2: "update_one asg k' t2 = (Some e, t2)" by simp
      with u have ur: "update_rows asg ids t n = (Inl e, t2)"
        by (simp add: ids_eq True rest)
      have kin: "k' \<in> set ids" by (simp add: ids_eq rest)
      have same: "map_of ?rws2 m = map_of rws m" if "m \<noteq> j" for m
        using that by (simp add: update_conv')
      have h: "\<exists>rj'. map_of ?rws2 j = Some rj' \<and> py_eq (row_get rj' (name col)) v"
        using j2 h2 by blast
      have first: "\<exists>rest. ids = j # rest \<and> update_one asg j t = (None, t2)"
        using ids_eq True u by blast
      from err s2 have err': "update_error (schema t) ?rws2 asg k' rk' = Some e" by simp
      show ?thesis
        by (intro exI[of _ e] exI[of _ t2] exI[of _ ?rws2] exI[of _ k'] exI[of _ rk'] conjI
            ur inv2 d2 s2 allI impI same disjI2 first h kin rk2 u2 err')
    qed
  qed
qed

lemma index_entry:
  assumes inv: "table_inv t" and data: "data t = Some rws"
    and ix: "map_of (indexes t) c = Some ix"
    and row: "map_of rws m = Some r" "row_get r c \<noteq> VNone" "py_eq (row_get r c) w"
  shows "Index_search ix w = {m}"
proof -
  from ix have "(c, ix) \<in> set (indexes t)" by (rule map_of_SomeD)
  with table_inv_data(2)[OF inv data] have ok: "index_ok rws c ix" by auto
  from ok have s: "Index_search ix w = holders rws c w"
    and u: "\<forall>a \<in> Index_search ix w. \<forall>b \<in> Index_search ix w. a = b"
    by (simp_all add: index_ok_def)
  from row have "m \<in> holders rws c w" by (simp add: holder_iff)
  with s have "m \<in> Index_search ix w" by simp
  with u show ?thesis by blast
qed

lemma stored_value_self_eq:
  assumes inv: "table_inv t" and data: "data t = Some rws" and row: "map_of rws m = Some r"
  shows "py_eq (row_get r c) (row_get r c)"
proof -
  from row have "(m, r) \<in> set rws" by (rule map_of_SomeD)
  with table_inv_data(1)[OF inv data] have "\<forall>(k, v) \<in> set r. \<not> is_float v"
    by (auto simp: rows_ok_def)
  from row_get_not_float[OF this] show ?thesis by (simp add: py_eq_dkey)
qed

lemma assign_validated_ok:
  "\<forall>(c, v) \<in> set asg. \<exists>cd. find (\<lambda>col. name col = c) cols = Some cd \<and> validate_value cd v \<Longrightarrow>
   \<exists>r'. assign_validated cols asg r = Inr r'"
  by (induction cols asg r rule: assign_validated.induct) auto

lemma update_error_kind:
  assumes inv: "table_inv t" and data: "data t = Some rws" and row: "map_of rws k = Some rk"
    and d: "distinct (map fst asg)"
    and valid: "\<forall>(c, v) \<in> set asg. \<exists>cd. find (\<lambda>col. name col = c) (schema t) = Some cd \<and> validate_value cd v"
    and nonnull: "\<forall>(c, v) \<in> set asg. \<forall>cd \<in> set (schema t). name cd = c \<and> is_primary cd \<longrightarrow> v \<noteq> VNone"
    and err: "update_error (schema t) rws asg k rk = Some e"
  shows "\<exists>c v. (c, v) \<in> set asg \<and> e = DuplicateValue c v"
proof -
  from assign_validated_ok[OF valid] obtain r' where a: "assign_validated (schema t) asg rk = Inr r'"
    by blast
  with err have fv: "first_violation rws r' (Some k) (schema t) = Some e"
    by (simp add: update_error_def)
  have kmem: "(k, rk) \<in> set rws" using row by (rule map_of_SomeD)
  from table_inv_data(1)[OF inv data] have ro: "rows_ok (schema t) rws" .
  have assigned: "(c, row_get r' c) \<in> set asg" if "c \<in> fst ` set asg" for c
  proof -
    from that obtain v where m: "(c, v) \<in> set asg" by auto
    from assign_validated_value[OF a d m] have "row_get r' c = v" by (simp add: row_get_def)
    with m show ?thesis by simp
  qed
  have kept: "row_get r' c = row_get rk c" if "c \<notin> fst ` set asg" for c
    using assign_validated_other[OF a that] by (simp add: row_get_def)
  from first_violation_errors[OF fv] show ?thesis
  proof
    assume "\<exists>cd \<in> set (schema t). is_primary cd \<and> row_get r' (name cd) = VNone \<and>
              e = NullPrimaryKey (name cd)"
    then obtain cd where cd: "cd \<in> set (schema t)" "is_primary cd" "row_get r' (name cd) = VNone"
      by blast
    show ?thesis
    proof (cases "name cd \<in> fst ` set asg")
      case True
      from assigned[OF True] cd(3) have "(name cd, VNone) \<in> set asg" by simp
      with nonnull cd(1,2) show ?thesis by blast
    next
      case False
      from kept[OF False] cd(3) have "row_get rk (name cd) = VNone" by simp
      with ro cd(1,2) kmem show ?thesis by (auto simp: rows_ok_def)
    qed
  next
    assume "\<exists>cd \<in> set (schema t). (is_primary cd \<or> is_unique cd) \<and> row_get r' (name cd) \<noteq> VNone \<and>
       value_taken rws (name cd) (row_get r' (name cd)) (Some k) \<and>
       e = DuplicateValue (name cd) (row_get r' (name cd))"
    then obtain cd where cd: "cd \<in> set (schema t)" "is_primary cd \<or> is_unique cd"
      "row_get r' (name cd) \<noteq> VNone"
      "value_taken rws (name cd) (row_get r' (name cd)) (Some k)"
      "e = DuplicateValue (name cd) (row_get r' (name cd))" by blast
    show ?thesis
    proof (cases "name cd \<in> fst ` set asg")
      case True
      from assigned[OF True] cd(5) show ?thesis by blast
    next
      case False
      from kept[OF False] have same: "row_get r' (name cd) = row_get rk (name cd)" .
      from cd(4) obtain m r where mr: "(m, r) \<in> set rws" "m \<noteq> k" "row_get r (name cd) \<noteq> VNone"
        "py_eq (row_get r (name cd)) (row_get r' (name cd))"
        by (auto simp: value_taken_def list_ex_iff)
      from ro have "distinct (map fst rws)" by (simp add: rows_ok_def)
      with mr(1) have mm: "map_of rws m = Some r" by simp
      from cd(2) have cd2: "is_unique cd \<or> is_primary cd" by blast
      from table_inv_unique_column[OF inv cd(1) cd2] data
      have "\<forall>i j r r'. map_of rws i = Some r \<and> map_of rws j = Some r' \<and>
                row_get r (name cd) \<noteq> VNone \<and>
                py_eq (row_get r (name cd)) (row_get r' (name cd)) \<longrightarrow> i = j" by auto
      with mm row mr(3) mr(4)[unfolded same] have "m = k" by blast
      with mr(2) show ?thesis by simp
    qed
  qed
qed

text \<open>
  C7, as the code has it. In every reachable state, let an UPDATE assign, in its SET
  clause (a dictionary: no column twice), a non-null value \<open>v\<close> to a unique or primary
  column in which the row \<open>j\<close> holds an equal value, and let its WHERE clause select a row
  \<open>i\<close> other than \<open>j\<close>. Then the statement fails, and nothing is written to storage. Every
  row other than \<open>j\<close> is as it was; the table as a whole is as it was, unless \<open>j\<close> is the
  first row selected and its own iteration committed before the failure; \<open>j\<close> still holds a
  value equal to \<open>v\<close> in the column, the column's index still maps \<open>v\<close> to \<open>j\<close> alone, and
  every index maps every non-null stored value to the one row that holds it. The failing
  iteration, on a selected row \<open>k\<close>, leaves the table as it found it, and the error
  is the first one that iteration meets: that of the first SET assignment that names no
  column or has a value of the wrong type, and else the first violation of the tentative row
  in schema order. It is the duplicate-value error of one of the SET assignments whenever
  every assignment names a column with a value of its type and none gives null to a
  primary column.
\<close>

theorem update_to_taken_value_fails:
  assumes "reachable ex" and "tables ex tn = Some t" and "data t = Some rws"
    and "col \<in> set (schema t)" and "is_primary col \<or> is_unique col"
    and "distinct (map fst asg)" and "(name col, v) \<in> set asg" and "v \<noteq> VNone"
    and "map_of rws j = Some rj" and "py_eq (row_get rj (name col)) v"
    and "(i, ri) \<in> set (apply_where_clause (indexes t) rws conds)" and "i \<noteq> j"
  shows "\<exists>e t' rws' k rk.
      execute_update ex tn asg conds = (Inl e, ex\<lparr>tables := (tables ex)(tn \<mapsto> t')\<rparr>) \<and>
      data t' = Some rws' \<and> schema t' = schema t \<and>
      (\<forall>m. m \<noteq> j \<longrightarrow> map_of rws' m = map_of rws m) \<and>
      (t' = t \<or> (\<exists>rest. map fst (apply_where_clause (indexes t) rws conds) = j # rest \<and>
                        update_one asg j t = (None, t'))) \<and>
      (\<exists>rj'. map_of rws' j = Some rj' \<and> py_eq (row_get rj' (name col)) v) \<and>
      (\<exists>ix. map_of (indexes t') (name col) = Some ix \<and> Index_search ix v = {j}) \<and>
      (\<forall>c ix m r. map_of (indexes t') c = Some ix \<and> map_of rws' m = Some r \<and> row_get r c \<noteq> VNone
          \<longrightarrow> Index_search ix (row_get r c) = {m}) \<and>
      k \<in> fst ` set (apply_where_clause (indexes t) rws conds) \<and> map_of rws' k = Some rk \<and>
      update_one asg k t' = (Some e, t') \<and>
      update_error (schema t) rws' asg k rk = Some e \<and>
      ((\<forall>(c, w) \<in> set asg. \<exists>cd. find (\<lambda>col. name col = c) (schema t) = Some cd \<and> validate_value cd w) \<and>
       (\<forall>(c, w) \<in> set asg. \<forall>cd \<in> set (schema t). name cd = c \<and> is_primary cd \<longrightarrow> w \<noteq> VNone)
       \<longrightarrow> (\<exists>c w. (c, w) \<in> set asg \<and> e = DuplicateValue c w))"
proof -
  let ?sel = "apply_where_clause (indexes t) rws conds"
  from reachable_inv[OF assms(1)] assms(2) have inv: "table_inv t" by (simp add: executor_inv_def)
  from table_inv_data(1)[OF inv assms(3)] have d: "distinct (map fst rws)" by (simp add: rows_ok_def)
  obtain P where sel: "?sel = filter P rws" using apply_where_clause_filter by blast
  have ids1: "distinct (map fst ?sel)" unfolding sel using d by (rule distinct_map_filter)
  have ids2: "set (map fst ?sel) \<subseteq> fst ` set rws" unfolding sel by auto
  have ids3: "i \<in> set (map fst ?sel)" using assms(11) by force
  note big = update_rows_taken[OF inv assms(3) assms(4) assms(5) assms(6) assms(7) assms(8) assms(9)
        assms(10) ids1 ids2 ids3 assms(12), of 0]
  from big show ?thesis
  proof (elim exE conjE)
  fix e t' rws' k rk rj'
  assume rj': "map_of rws' j = Some rj'" "py_eq (row_get rj' (name col)) v"
  assume r:
      "update_rows asg (map fst ?sel) t 0 = (Inl e, t')" "table_inv t'" "data t' = Some rws'"
      "schema t' = schema t"
      "\<forall>m. m \<noteq> j \<longrightarrow> map_of rws' m = map_of rws m"
      "t' = t \<or> (\<exists>rest. map fst ?sel = j # rest \<and> update_one asg j t = (None, t'))"
      "k \<in> set (map fst ?sel)" "map_of rws' k = Some rk"
      "update_one asg k t' = (Some e, t')"
      "update_error (schema t) rws' asg k rk = Some e"
  from rj' have r7: "\<exists>rj'. map_of rws' j = Some rj' \<and> py_eq (row_get rj' (name col)) v" by blast
  from r(1) assms(2,3)
  have ex: "execute_update ex tn asg conds = (Inl e, ex\<lparr>tables := (tables ex)(tn \<mapsto> t')\<rparr>)"
    by (simp add: execute_update_def)
  from r(7) have kin: "k \<in> fst ` set ?sel" by simp
  from py_eq_not_None[OF rj'(2) assms(8)] have nn: "row_get rj' (name col) \<noteq> VNone" .
  from assms(4) r(4) have col': "col \<in> set (schema t')" by simp
  from assms(5) have "is_unique col \<or> is_primary col" by blast
  from table_inv_unique_column[OF r(2) col' this]
  obtain ix where ix: "map_of (indexes t') (name col) = Some ix" by blast
  from index_entry[OF r(2,3) ix rj'(1) nn rj'(2)]
  have ixj: "\<exists>ix. map_of (indexes t') (name col) = Some ix \<and> Index_search ix v = {j}"
    using ix by blast
  have all: "\<forall>c ix m r. map_of (indexes t') c = Some ix \<and> map_of rws' m = Some r \<and> row_get r c \<noteq> VNone
          \<longrightarrow> Index_search ix (row_get r c) = {m}"
  proof (intro allI impI)
    fix c ix m r
    assume h: "map_of (indexes t') c = Some ix \<and> map_of rws' m = Some r \<and> row_get r c \<noteq> VNone"
    from h have 1: "map_of (indexes t') c = Some ix" and 2: "map_of rws' m = Some r"
      and 3: "row_get r c \<noteq> VNone" by blast+
    from index_entry[OF r(2,3) 1 2 3 stored_value_self_eq[OF r(2,3) 2]]
    show "Index_search ix (row_get r c) = {m}" .
  qed
  have kind: "(\<forall>(c, w) \<in> set asg. \<exists>cd. find (\<lambda>col. name col = c) (schema t) = Some cd \<and> validate_value cd w) \<and>
       (\<forall>(c, w) \<in> set asg. \<forall>cd \<in> set (schema t). name cd = c \<and> is_primary cd \<longrightarrow> w \<noteq> VNone)
       \<longrightarrow> (\<exists>c w. (c, w) \<in> set asg \<and> e = DuplicateValue c w)"
  proof
    assume h: "(\<forall>(c, w) \<in> set asg. \<exists>cd. find (\<lambda>col. name col = c) (schema t) = Some cd \<and> validate_value cd w) \<and>
       (\<forall>(c, w) \<in> set asg. \<forall>cd \<in> set (schema t). name cd = c \<and> is_primary cd \<longrightarrow> w \<noteq> VNone)"
    from h have 1: "\<forall>(c, w) \<in> set asg. \<exists>cd. find (\<lambda>col. name col = c) (schema t') = Some cd \<and> validate_value cd w"
      unfolding r(4) by (rule conjunct1)
    from h have 2: "\<forall>(c, w) \<in> set asg. \<forall>cd \<in> set (schema t'). name cd = c \<and> is_primary cd \<longrightarrow> w \<noteq> VNone"
      unfolding r(4) by (rule conjunct2)
    from r(10) have 3: "update_error (schema t') rws' asg k rk = Some e" unfolding r(4) .
    from update_error_kind[OF r(2,3) r(8) assms(6) 1 2 3]
    show "\<exists>c w. (c, w) \<in> set asg \<and> e = DuplicateValue c w" .
  qed
  show ?thesis
    by (intro exI[of _ e] exI[of _ t'] exI[of _ rws'] exI[of _ k] exI[of _ rk] conjI
        ex r(3) r(4) r(5) r(6) r7 ixj all kin r(8) r(9) r(10) kind)
  qed
qed

lemma users_db_same: "users_db\<lparr>tables := (tables users_db)(''users'' \<mapsto> users_table)\<rparr> = users_db"
  by (simp add: fun_upd_idem users_db_table)

theorem update_to_taken_value_fails_witness:
  "reachable users_db \<and> tables users_db ''users'' = Some users_table \<and>
   data users_table = Some users_rows \<and>
   \<lparr>name = ''email'', dtype = DT_TEXT, is_primary = False, is_unique = True\<rparr> \<in> set (schema users_table) \<and>
   map_of users_rows 1 = Some [(''tag'', VStr ''x''), (''id'', VInt 1), (''email'', VStr ''a@x.com'')] \<and>
   apply_where_clause (indexes users_table) users_rows
       (Some [\<lparr>cond_column = ''tag'', cond_operator = ''='', cond_value = VStr ''y''\<rparr>]) =
     [(2, [(''tag'', VStr ''y''), (''id'', VInt 2), (''email'', VStr ''b@x.com'')])] \<and>
   execute_update users_db ''users'' [(''email'', VStr ''a@x.com'')]
       (Some [\<lparr>cond_column = ''tag'', cond_operator = ''='', cond_value = VStr ''y''\<rparr>]) =
     (Inl (DuplicateValue ''email'' (VStr ''a@x.com'')), users_db) \<and>
   (\<exists>e t'. execute_update users_db ''users'' [(''email'', VStr ''a@x.com'')]
       (Some [\<lparr>cond_column = ''tag'', cond_operator = ''='', cond_value = VStr ''y''\<rparr>]) =
       (Inl e, users_db\<lparr>tables := (tables users_db)(''users'' \<mapsto> t')\<rparr>) \<and>
     e = DuplicateValue ''email'' (VStr ''a@x.com'') \<and>
     (\<forall>m. m \<noteq> 1 \<longrightarrow> map_of (the (data t')) m = map_of users_rows m))"
proof -
  let ?col = "\<lparr>name = ''email'', dtype = DT_TEXT, is_primary = False, is_unique = True\<rparr>"
  let ?asg = "[(''email'', VStr ''a@x.com'')]"
  let ?conds = "Some [\<lparr>cond_column = ''tag'', cond_operator = ''='', cond_value = VStr ''y''\<rparr>]"
  let ?r1 = "[(''tag'', VStr ''x''), (''id'', VInt 1), (''email'', VStr ''a@x.com'')]"
  let ?r2 = "[(''tag'', VStr ''y''), (''id'', VInt 2), (''email'', VStr ''b@x.com'')]"
  have c: "?col \<in> set (schema users_table)" by (simp add: users_table_def)
  have u: "is_primary ?col \<or> is_unique ?col" by simp
  have d: "distinct (map fst ?asg)" by simp
  have a: "(name ?col, VStr ''a@x.com'') \<in> set ?asg" by simp
  have n: "VStr ''a@x.com'' \<noteq> VNone" by simp
  have h: "map_of users_rows 1 = Some ?r1" by (simp add: users_rows_def)
  have p: "py_eq (row_get ?r1 (name ?col)) (VStr ''a@x.com'')" by (simp add: row_get_def py_eq_def)
  have w: "apply_where_clause (indexes users_table) users_rows ?conds = [(2, ?r2)]"
    by (simp add: users_table_def users_rows_def exec_defs)
  then have s: "(2, ?r2) \<in> set (apply_where_clause (indexes users_table) users_rows ?conds)"
    by simp
  have ne: "(2::nat) \<noteq> 1" by simp
  have l: "update_one ?asg 2 users_table =
     (Some (DuplicateValue ''email'' (VStr ''a@x.com'')), users_table)"
    by (simp add: users_table_def users_rows_def exec_defs)
  have e: "execute_update users_db ''users'' ?asg ?conds =
     (Inl (DuplicateValue ''email'' (VStr ''a@x.com'')), users_db)"
    by (simp add: execute_update_def users_db_table users_table_data w l users_db_same)
  have v1: "\<forall>(c, w) \<in> set ?asg. \<exists>cd. find (\<lambda>col. name col = c) (schema users_table) = Some cd \<and>
              validate_value cd w"
    by (simp add: users_table_def validate_value_def)
  have v2: "\<forall>(c, w) \<in> set ?asg. \<forall>cd \<in> set (schema users_table). name cd = c \<and> is_primary cd
              \<longrightarrow> w \<noteq> VNone"
    by simp
  note inst = update_to_taken_value_fails[OF users_db_reachable users_db_table users_table_data
      c u d a n h p s ne]
  from inst have r: "\<exists>e t'. execute_update users_db ''users'' ?asg ?conds =
       (Inl e, users_db\<lparr>tables := (tables users_db)(''users'' \<mapsto> t')\<rparr>) \<and>
     e = DuplicateValue ''email'' (VStr ''a@x.com'') \<and>
     (\<forall>m. m \<noteq> 1 \<longrightarrow> map_of (the (data t')) m = map_of users_rows m)"
  proof (elim exE conjE)
    fix e t' rws' k rk rj' ix
    assume x: "execute_update users_db ''users'' ?asg ?conds =
       (Inl e, users_db\<lparr>tables := (tables users_db)(''users'' \<mapsto> t')\<rparr>)"
      and dt: "data t' = Some rws'"
      and same: "\<forall>m. m \<noteq> 1 \<longrightarrow> map_of rws' m = map_of users_rows m"
      and kind: "(\<forall>(c, w) \<in> set ?asg. \<exists>cd. find (\<lambda>col. name col = c) (schema users_table) = Some cd \<and>
              validate_value cd w) \<and>
         (\<forall>(c, w) \<in> set ?asg. \<forall>cd \<in> set (schema users_table). name cd = c \<and> is_primary cd
              \<longrightarrow> w \<noteq> VNone)
         \<longrightarrow> (\<exists>c w. (c, w) \<in> set ?asg \<and> e = DuplicateValue c w)"
    from kind v1 v2 have "\<exists>c w. (c, w) \<in> set ?asg \<and> e = DuplicateValue c w" by blast
    then have ee: "e = DuplicateValue ''email'' (VStr ''a@x.com'')" by simp
    from same dt have "\<forall>m. m \<noteq> 1 \<longrightarrow> map_of (the (data t')) m = map_of users_rows m" by simp
    with x ee show ?thesis by blast
  qed
  show ?thesis by (intro conjI users_db_reachable users_db_table users_table_data c h w e r)
qed

text \<open>
  C7 as claimed fails in the kind of the error. The first row of the example holds the
  address \<^verbatim>\<open>a@x.com\<close>; an UPDATE of the second row that sets its \<^verbatim>\<open>email\<close> to that address
  and its primary key to null fails with the null-primary-key error, the column \<^verbatim>\<open>id\<close>
  standing before \<^verbatim>\<open>email\<close> in the schema; and one that also sets the text column \<^verbatim>\<open>tag\<close>
  to the number 5 fails with the type error, raised before any constraint is checked.
\<close>

theorem update_to_taken_value_other_error:
  "reachable users_db \<and> tables users_db ''users'' = Some users_table \<and>
   data users_table = Some users_rows \<and>
   map_of users_rows 1 = Some [(''tag'', VStr ''x''), (''id'', VInt 1), (''email'', VStr ''a@x.com'')] \<and>
   apply_where_clause (indexes users_table) users_rows
       (Some [\<lparr>cond_column = ''tag'', cond_operator = ''='', cond_value = VStr ''y''\<rparr>]) =
     [(2, [(''tag'', VStr ''y''), (''id'', VInt 2), (''email'', VStr ''b@x.com'')])] \<and>
   execute_update users_db ''users'' [(''id'', VNone), (''email'', VStr ''a@x.com'')]
       (Some [\<lparr>cond_column = ''tag'', cond_operator = ''='', cond_value = VStr ''y''\<rparr>]) =
     (Inl (NullPrimaryKey ''id''), users_db) \<and>
   execute_update users_db ''users'' [(''email'', VStr ''a@x.com''), (''tag'', VInt 5)]
       (Some [\<lparr>cond_column = ''tag'', cond_operator = ''='', cond_value = VStr ''y''\<rparr>]) =
     (Inl (InvalidType ''tag''), users_db)"
proof -
  let ?conds = "Some [\<lparr>cond_column = ''tag'', cond_operator = ''='', cond_value = VStr ''y''\<rparr>]"
  have h: "map_of users_rows 1 = Some [(''tag'', VStr ''x''), (''id'', VInt 1), (''email'', VStr ''a@x.com'')]"
    by (simp add: users_rows_def)
  have w: "apply_where_clause (indexes users_table) users_rows ?conds =
      [(2, [(''tag'', VStr ''y''), (''id'', VInt 2), (''email'', VStr ''b@x.com'')])]"
    by (simp add: users_table_def users_rows_def exec_defs)
  have l1: "update_one [(''id'', VNone), (''email'', VStr ''a@x.com'')] 2 users_table =
     (Some (NullPrimaryKey ''id''), users_table)"
    by (simp add: users_table_def users_rows_def exec_defs)
  have l2: "update_one [(''email'', VStr ''a@x.com''), (''tag'', VInt 5)] 2 users_table =
     (Some (InvalidType ''tag''), users_table)"
    by (simp add: users_table_def users_rows_def exec_defs)
  have e1: "execute_update users_db ''users'' [(''id'', VNone), (''email'', VStr ''a@x.com'')] ?conds =
     (Inl (NullPrimaryKey ''id''), users_db)"
    by (simp add: execute_update_def users_db_table users_table_data w l1 users_db_same)
  have e2: "execute_update users_db ''users'' [(''email'', VStr ''a@x.com''), (''tag'', VInt 5)] ?conds =
     (Inl (InvalidType ''tag''), users_db)"
    by (simp add: execute_update_def users_db_table users_table_data w l2 users_db_same)
  show ?thesis by (intro conjI users_db_reachable users_db_table users_table_data h w e1 e2)
qed

text \<open>
  The exception in the theorem does occur. An UPDATE of all rows that sets
  \<^verbatim>\<open>email\<close> to the first row's address and \<^verbatim>\<open>tag\<close> to a new value commits the first
  row, which holds the address itself, and fails on the second: the first row keeps its
  new tag in memory, and nothing is written to storage.
\<close>

lemma update_commits_holder_before_failure:
  "apply_where_clause (indexes users_table) users_rows None = users_rows \<and>
   fst (execute_update users_db ''users'' [(''email'', VStr ''a@x.com''), (''tag'', VStr ''w'')] None) =
     Inl (DuplicateValue ''tag'' (VStr ''w'')) \<and>
   map_option data (tables (snd (execute_update users_db ''users''
       [(''email'', VStr ''a@x.com''), (''tag'', VStr ''w'')] None)) ''users'') =
     Some (Some [(1, [(''tag'', VStr ''w''), (''id'', VInt 1), (''email'', VStr ''a@x.com'')]),
                 (2, [(''tag'', VStr ''y''), (''id'', VInt 2), (''email'', VStr ''b@x.com'')]),
                 (3, [(''tag'', VStr ''z''), (''id'', VInt 3), (''email'', VNone)])]) \<and>
   storage (snd (execute_update users_db ''users''
       [(''email'', VStr ''a@x.com''), (''tag'', VStr ''w'')] None)) = storage users_db"
proof -
  let ?asg = "[(''email'', VStr ''a@x.com''), (''tag'', VStr ''w'')]"
  have w: "apply_where_clause (indexes users_table) users_rows None = users_rows"
    by (simp add: apply_where_clause_def)
  have "\<exists>t'. update_rows ?asg (map fst users_rows) users_table 0 =
          (Inl (DuplicateValue ''tag'' (VStr ''w'')), t') \<and>
        data t' = Some [(1, [(''tag'', VStr ''w''), (''id'', VInt 1), (''email'', VStr ''a@x.com'')]),
                 (2, [(''tag'', VStr ''y''), (''id'', VInt 2), (''email'', VStr ''b@x.com'')]),
                 (3, [(''tag'', VStr ''z''), (''id'', VInt 3), (''email'', VNone)])]"
    by (simp add: users_table_def users_rows_def exec_defs numeral_2_eq_2 numeral_3_eq_3
        eval_nat_numeral)
  then obtain t' where l: "update_rows ?asg (map fst users_rows) users_table 0 =
          (Inl (DuplicateValue ''tag'' (VStr ''w'')), t')"
    and d: "data t' = Some [(1, [(''tag'', VStr ''w''), (''id'', VInt 1), (''email'', VStr ''a@x.com'')]),
                 (2, [(''tag'', VStr ''y''), (''id'', VInt 2), (''email'', VStr ''b@x.com'')]),
                 (3, [(''tag'', VStr ''z''), (''id'', VInt 3), (''email'', VNone)])]"
    by blast
  have e: "execute_update users_db ''users'' ?asg None =
      (Inl (DuplicateValue ''tag'' (VStr ''w'')), users_db\<lparr>tables := (tables users_db)(''users'' \<mapsto> t')\<rparr>)"
    by (simp add: execute_update_def users_db_table users_table_data w l)
  show ?thesis unfolding e using w d by simp
qed

end
